theory Spec2Isabelle
  imports
    Complex_Main
    "HOL-Library.Word"
    "HOL-Library.Char_ord"
    "HOL-Library.List_Lexorder"
    "HOL-Library.Multiset"
begin

section \<open>Time: instants, durations, truncation\<close>

text \<open>
  A Go \<^verbatim>\<open>time.Time\<close> is modelled as an instant: the number of nanoseconds since
  1970-01-01 00:00:00 UTC, an integer. The monotonic clock reading is left out
  (every operation used by the program strips it), and the instants are unbounded
  (Go's own range is about 292 billion years around year 1). A \<^verbatim>\<open>time.Duration\<close> is
  a signed 64-bit count of nanoseconds; where the program computes one by arithmetic
  the wrap-around is written out with \<^typ>\<open>64 word\<close>.
\<close>

type_synonym instant = int

text \<open>
  A \<^verbatim>\<open>time.Time\<close> also carries a \<^verbatim>\<open>*time.Location\<close>; for \<^verbatim>\<open>time.Now()\<close> it is
  \<^verbatim>\<open>time.Local\<close>, the zone of the process, and \<^verbatim>\<open>Truncate\<close> and \<^verbatim>\<open>Add\<close> keep it. A
  location is modelled by what \<^verbatim>\<open>Format\<close> asks of it: the offset from UTC, in seconds
  east, that is in force at an instant. The program never sets a location, so the
  location of every time it formats is the one of the process, a parameter \<open>loc\<close> of
  the functions below.
\<close>

type_synonym location = "instant \<Rightarrow> int"

definition UTC :: location where
  "UTC t = 0"

text \<open>
  Two zones for the closed examples. \<open>Kolkata\<close> is \<^verbatim>\<open>Asia/Kolkata\<close>, five and a half
  hours east of UTC throughout. \<open>New_York_2024\<close> is \<^verbatim>\<open>America/New_York\<close> in the year
  2024: four hours west of UTC from 2024-03-10 07:00:00 UTC (instant 1710054000 s) to
  2024-11-03 06:00:00 UTC (instant 1730613600 s), when the clocks are set back from
  02:00 to 01:00, and five hours west before and after.
\<close>

definition Kolkata :: location where
  "Kolkata t = 19800"

definition New_York_2024 :: location where
  "New_York_2024 t =
     (if 1710054000 * 1000000000 \<le> t \<and> t < 1730613600 * 1000000000 then - 14400 else - 18000)"

text \<open>
  Between two instants the clock of a zone is not set back when the offset at the
  later one is not less than the offset at the earlier one.
\<close>

definition not_set_back :: "location \<Rightarrow> instant \<Rightarrow> instant \<Rightarrow> bool" where
  "not_set_back loc a b = ((a \<le> b \<longrightarrow> loc a \<le> loc b) \<and> (b \<le> a \<longrightarrow> loc b \<le> loc a))"

definition Second :: int where
  "Second = 1000000000"

definition Minute :: int where
  "Minute = 60 * Second"

text \<open>
  \<^verbatim>\<open>unixToInternal\<close>: seconds from Go's zero time (January 1, year 1, 00:00:00 UTC)
  to the Unix epoch. \<^verbatim>\<open>t.Truncate(d)\<close> rounds \<open>t\<close> down to a multiple of \<open>d\<close> counted
  from the zero time, and returns \<open>t\<close> unchanged when \<open>d \<le> 0\<close>.
\<close>

definition unixToInternal :: int where
  "unixToInternal = 62135596800"

definition Truncate :: "instant \<Rightarrow> int \<Rightarrow> instant" where
  "Truncate t d = (if d \<le> 0 then t else t - ((t + unixToInternal * Second) mod d))"

definition Add :: "instant \<Rightarrow> int \<Rightarrow> instant" where
  "Add t d = t + d"

section \<open>Time: the civil calendar and the layouts of Format\<close>

text \<open>
  \<^verbatim>\<open>t.Format(layout)\<close> renders the civil fields of \<open>t\<close> in the location of \<open>t\<close>
  (proleptic Gregorian calendar). As in package time, the instant is first moved by
  the offset of the location (\<open>locabs\<close>); the fields are then read off that civil
  time, a count of nanoseconds from 1970-01-01 00:00:00 on the zone's own clock.
  Package time is not part of the program; the fields are computed here in the usual
  way: the day count is split into cycles of 400, 100, 4 and 1 years of the year that
  starts on March 1, and the month and the day follow from the day of that year. The
  section on concrete inputs checks the result on known dates.
\<close>

type_synonym civil = int

definition locabs :: "location \<Rightarrow> instant \<Rightarrow> civil" where
  "locabs loc t = t + loc t * Second"

definition unix_sec :: "civil \<Rightarrow> int" where
  "unix_sec t = t div Second"

definition unix_day :: "civil \<Rightarrow> int" where
  "unix_day t = unix_sec t div 86400"

text \<open>Days from 0000-03-01 to 1970-01-01.\<close>

definition march_epoch :: int where
  "march_epoch = 719468"

definition n400 :: "int \<Rightarrow> int" where
  "n400 z = (z + march_epoch) div 146097"

definition r400 :: "int \<Rightarrow> int" where
  "r400 z = (z + march_epoch) mod 146097"

definition n100 :: "int \<Rightarrow> int" where
  "n100 z = min 3 (r400 z div 36524)"

definition r100 :: "int \<Rightarrow> int" where
  "r100 z = r400 z - 36524 * n100 z"

definition n4 :: "int \<Rightarrow> int" where
  "n4 z = r100 z div 1461"

definition r4 :: "int \<Rightarrow> int" where
  "r4 z = r100 z mod 1461"

definition n1 :: "int \<Rightarrow> int" where
  "n1 z = min 3 (r4 z div 365)"

text \<open>The year that starts on March 1, and the day within it (0 is March 1).\<close>

definition march_year :: "int \<Rightarrow> int" where
  "march_year z = 400 * n400 z + 100 * n100 z + 4 * n4 z + n1 z"

definition march_yday :: "int \<Rightarrow> int" where
  "march_yday z = r4 z - 365 * n1 z"

text \<open>The month counted from March (0 is March, 11 is February).\<close>

definition march_month :: "int \<Rightarrow> int" where
  "march_month z = (5 * march_yday z + 2) div 153"

definition day_of_days :: "int \<Rightarrow> int" where
  "day_of_days z = march_yday z - (153 * march_month z + 2) div 5 + 1"

definition month_of_days :: "int \<Rightarrow> int" where
  "month_of_days z = (if march_month z < 10 then march_month z + 3 else march_month z - 9)"

definition year_of_days :: "int \<Rightarrow> int" where
  "year_of_days z = (if month_of_days z \<le> 2 then march_year z + 1 else march_year z)"

definition Year :: "civil \<Rightarrow> int" where
  "Year t = year_of_days (unix_day t)"

definition Month :: "civil \<Rightarrow> int" where
  "Month t = month_of_days (unix_day t)"

definition Day :: "civil \<Rightarrow> int" where
  "Day t = day_of_days (unix_day t)"

text \<open>The clock: seconds into the day, then hour, minute, second, as Go's \<^verbatim>\<open>clock\<close>.\<close>

definition sec_of_day :: "civil \<Rightarrow> int" where
  "sec_of_day t = unix_sec t mod 86400"

definition Hour :: "civil \<Rightarrow> int" where
  "Hour t = sec_of_day t div 3600"

definition Minute_of :: "civil \<Rightarrow> int" where
  "Minute_of t = (sec_of_day t - 3600 * Hour t) div 60"

definition Second_of :: "civil \<Rightarrow> int" where
  "Second_of t = sec_of_day t - 3600 * Hour t - 60 * Minute_of t"

text \<open>
  \<^verbatim>\<open>appendInt(b, x, width)\<close> of package time: a minus sign for a negative \<open>x\<close>, then
  the decimal digits of \<open>|x|\<close>, padded on the left with zeros to \<open>width\<close>. A number
  with more digits than \<open>width\<close> is written in full.
\<close>

definition digit_char :: "nat \<Rightarrow> char" where
  "digit_char d = ''0123456789'' ! d"

fun digits :: "nat \<Rightarrow> string" where
  "digits n = (if n < 10 then [digit_char n] else digits (n div 10) @ [digit_char (n mod 10)])"

declare digits.simps [simp del]

text \<open>Reading digits back: the test for a digit, its value, the value of a digit string.\<close>

definition is_digit :: "char \<Rightarrow> bool" where
  "is_digit c = (c \<in> set ''0123456789'')"

definition digit_val :: "char \<Rightarrow> nat" where
  "digit_val c = of_char c - 48"

definition dec_val :: "string \<Rightarrow> nat" where
  "dec_val cs = foldl (\<lambda>a c. 10 * a + digit_val c) 0 cs"

definition appendInt :: "int \<Rightarrow> nat \<Rightarrow> string" where
  "appendInt x width =
     (if x < 0 then ''-'' else '''') @
     replicate (width - length (digits (nat \<bar>x\<bar>))) CHR ''0'' @ digits (nat \<bar>x\<bar>)"

text \<open>The layout \<^verbatim>\<open>"20060102_1504"\<close>, of a civil time and of an instant in a location.\<close>

definition layout_20060102_1504 :: "civil \<Rightarrow> string" where
  "layout_20060102_1504 t =
     appendInt (Year t) 4 @ appendInt (Month t) 2 @ appendInt (Day t) 2 @ ''_'' @
     appendInt (Hour t) 2 @ appendInt (Minute_of t) 2"

definition Format_20060102_1504 :: "location \<Rightarrow> instant \<Rightarrow> string" where
  "Format_20060102_1504 loc t = layout_20060102_1504 (locabs loc t)"

text \<open>The layout \<^verbatim>\<open>"2006-01-02 15:04:05"\<close>, likewise.\<close>

definition layout_datetime :: "civil \<Rightarrow> string" where
  "layout_datetime t =
     appendInt (Year t) 4 @ ''-'' @ appendInt (Month t) 2 @ ''-'' @ appendInt (Day t) 2 @ '' '' @
     appendInt (Hour t) 2 @ '':'' @ appendInt (Minute_of t) 2 @ '':'' @ appendInt (Second_of t) 2"

definition Format_datetime :: "location \<Rightarrow> instant \<Rightarrow> string" where
  "Format_datetime loc t = layout_datetime (locabs loc t)"

text \<open>
  \<^verbatim>\<open>fmt.Sprintf("audit_logs_%s", t.Format("20060102_1504"))\<close> for a time \<open>t\<close> in the
  location \<open>loc\<close>; \<open>civil_name\<close> is the same text as a function of the civil time.
\<close>

definition partition_name :: "location \<Rightarrow> instant \<Rightarrow> string" where
  "partition_name loc t = ''audit_logs_'' @ Format_20060102_1504 loc t"

definition civil_name :: "civil \<Rightarrow> string" where
  "civil_name c = ''audit_logs_'' @ layout_20060102_1504 c"

text \<open>
  The shape of a partition's name: \<^verbatim>\<open>audit_logs_\<close>, eight digits, an underscore, four
  digits; and the characters of a plain SQL identifier.
\<close>

definition name_shape :: "string \<Rightarrow> bool" where
  "name_shape s =
     (length s = 24 \<and> take 11 s = ''audit_logs_'' \<and> list_all is_digit (take 8 (drop 11 s)) \<and>
      s ! 19 = CHR ''_'' \<and> list_all is_digit (drop 20 s))"

definition is_letter :: "char \<Rightarrow> bool" where
  "is_letter c =
     ((65 \<le> (of_char c :: nat) \<and> (of_char c :: nat) \<le> 90) \<or>
      (97 \<le> (of_char c :: nat) \<and> (of_char c :: nat) \<le> 122))"

definition ident_char :: "char \<Rightarrow> bool" where
  "ident_char c = (is_letter c \<or> is_digit c \<or> c = CHR ''_'')"

section \<open>The database\<close>

text \<open>
  The program talks to PostgreSQL through \<^verbatim>\<open>database/sql\<close>. The model keeps what the
  statements of the program can observe: whether the partitioned parent table
  \<^verbatim>\<open>audit_logs\<close> exists, and its partitions in creation order, each with its name,
  its half-open range of \<^verbatim>\<open>created_at\<close> and its rows. The \<^verbatim>\<open>id\<close> column (a sequence) is
  left out. The column \<^verbatim>\<open>created_at\<close> is a \<^verbatim>\<open>TIMESTAMP\<close>, a date and a time of day without a
  zone: the values of the rows and the bounds of the partitions are civil times, and
  the database compares them as such. A value is kept as it is given (PostgreSQL keeps
  microseconds; the rounding of a finer value is left out).
\<close>

record log_row =
  row_method :: string
  created_at :: civil

record partition =
  bound_from :: civil
  bound_to :: civil
  part_rows :: "log_row list"

record database =
  parent_exists :: bool
  partitions :: "(string \<times> partition) list"

text \<open>Partitions are tables of the parent: a database without the parent has none.\<close>

definition wf_db :: "database \<Rightarrow> bool" where
  "wf_db db = (parent_exists db \<or> partitions db = [])"

datatype dberr =
    ConnectionLost
  | PermissionDenied
  | SyntaxError
  | UndefinedTable
  | DuplicateTable
  | InvalidBound
  | PartitionOverlap
  | NoPartitionForRow

text \<open>
  The statements the program sends. \<open>CreatePartitionIfNotExists\<close> carries the two bounds as
  the civil times that its text spells out; \<open>sql_text\<close> below gives the text, where the
  bounds are written in the layout \<^verbatim>\<open>"2006-01-02 15:04:05"\<close>.
\<close>

datatype sql =
    DropTableIfExistsCascade string
  | CreateRootTable
  | CreatePartitionIfNotExists string civil civil

definition sql_text :: "sql \<Rightarrow> string" where
  "sql_text q = (case q of
     DropTableIfExistsCascade name \<Rightarrow> ''DROP TABLE IF EXISTS '' @ name @ '' CASCADE;''
   | CreateRootTable \<Rightarrow>
       ''CREATE TABLE audit_logs (id BIGSERIAL, method TEXT NOT NULL, '' @
       ''created_at TIMESTAMP NOT NULL DEFAULT NOW(), PRIMARY KEY (id, created_at)) '' @
       ''PARTITION BY RANGE (created_at);''
   | CreatePartitionIfNotExists name lo hi \<Rightarrow>
       ''CREATE TABLE IF NOT EXISTS '' @ name @ '' PARTITION OF audit_logs FOR VALUES FROM ('' @
       [CHR 0x27] @ layout_datetime lo @ [CHR 0x27] @ '') TO ('' @
       [CHR 0x27] @ layout_datetime hi @ [CHR 0x27] @ '');'')"

text \<open>
  A statement with \<^verbatim>\<open>IF EXISTS\<close> or \<^verbatim>\<open>IF NOT EXISTS\<close> that finds nothing to do succeeds
  with a notice (\<open>Skipped\<close>); the driver returns no error for it.
\<close>

datatype notice = Done | Skipped

definition has_table :: "database \<Rightarrow> string \<Rightarrow> bool" where
  "has_table db name =
     ((name = ''audit_logs'' \<and> parent_exists db) \<or> name \<in> fst ` set (partitions db))"

definition overlaps :: "civil \<Rightarrow> civil \<Rightarrow> partition \<Rightarrow> bool" where
  "overlaps lo hi p = (lo < bound_to p \<and> bound_from p < hi)"

definition exec_sql :: "database \<Rightarrow> sql \<Rightarrow> dberr + (notice \<times> database)" where
  "exec_sql db q = (case q of
     DropTableIfExistsCascade name \<Rightarrow>
       (if name = ''audit_logs'' then
          (if parent_exists db
           then Inr (Done, db\<lparr>parent_exists := False, partitions := []\<rparr>)
           else Inr (Skipped, db))
        else if name \<in> fst ` set (partitions db)
        then Inr (Done, db\<lparr>partitions := filter (\<lambda>(n, p). n \<noteq> name) (partitions db)\<rparr>)
        else Inr (Skipped, db))
   | CreateRootTable \<Rightarrow>
       (if has_table db ''audit_logs'' then Inl DuplicateTable
        else Inr (Done, db\<lparr>parent_exists := True\<rparr>))
   | CreatePartitionIfNotExists name lo hi \<Rightarrow>
       (if has_table db name then Inr (Skipped, db)
        else if \<not> parent_exists db then Inl UndefinedTable
        else if hi \<le> lo then Inl InvalidBound
        else if list_ex (\<lambda>(n, p). overlaps lo hi p) (partitions db) then Inl PartitionOverlap
        else Inr (Done, db\<lparr>partitions := partitions db @
               [(name, \<lparr>bound_from = lo, bound_to = hi, part_rows = []\<rparr>)]\<rparr>)))"

text \<open>
  \<^verbatim>\<open>db.Exec(stmt)\<close>. A call can also fail for a reason outside the schema (a lost
  connection, a missing privilege): the first argument is that failure, if any, and
  the database is then left as it was.
\<close>

definition db_Exec :: "dberr option \<Rightarrow> database \<Rightarrow> sql \<Rightarrow> dberr + (notice \<times> database)" where
  "db_Exec fault db q = (case fault of Some e \<Rightarrow> Inl e | None \<Rightarrow> exec_sql db q)"

text \<open>
  A transaction works on its own copy of the tables; \<^verbatim>\<open>Commit\<close> publishes the copy,
  \<^verbatim>\<open>Rollback\<close> (the deferred call on every path that did not commit) drops it. An
  insert into the parent goes to the first partition whose range holds the row's
  \<^verbatim>\<open>created_at\<close>, and fails when there is none.
\<close>

definition holds :: "partition \<Rightarrow> civil \<Rightarrow> bool" where
  "holds p t = (bound_from p \<le> t \<and> t < bound_to p)"

fun insert_into :: "(string \<times> partition) list \<Rightarrow> log_row \<Rightarrow> (string \<times> partition) list option" where
  "insert_into [] r = None"
| "insert_into ((n, p) # ps) r =
     (if holds p (created_at r)
      then Some ((n, p\<lparr>part_rows := part_rows p @ [r]\<rparr>) # ps)
      else map_option (\<lambda>ps'. (n, p) # ps') (insert_into ps r))"

definition db_Begin :: "dberr option \<Rightarrow> database \<Rightarrow> dberr + database" where
  "db_Begin fault db = (case fault of Some e \<Rightarrow> Inl e | None \<Rightarrow> Inr db)"

definition tx_Prepare :: "dberr option \<Rightarrow> database \<Rightarrow> dberr + unit" where
  "tx_Prepare fault tx = (case fault of Some e \<Rightarrow> Inl e | None \<Rightarrow> Inr ())"

definition stmt_Exec :: "dberr option \<Rightarrow> database \<Rightarrow> log_row \<Rightarrow> dberr + database" where
  "stmt_Exec fault tx r = (case fault of
     Some e \<Rightarrow> Inl e
   | None \<Rightarrow>
       (if \<not> parent_exists tx then Inl UndefinedTable
        else case insert_into (partitions tx) r of
          None \<Rightarrow> Inl NoPartitionForRow
        | Some ps \<Rightarrow> Inr (tx\<lparr>partitions := ps\<rparr>)))"

definition tx_Commit :: "dberr option \<Rightarrow> database \<Rightarrow> dberr + database" where
  "tx_Commit fault tx = (case fault of Some e \<Rightarrow> Inl e | None \<Rightarrow> Inr tx)"

text \<open>All rows a reader of \<^verbatim>\<open>audit_logs\<close> sees.\<close>

definition all_rows :: "database \<Rightarrow> log_row list" where
  "all_rows db = concat (map (\<lambda>(n, p). part_rows p) (partitions db))"

section \<open>The program: partitions\<close>

text \<open>What the program prints, one constructor for each message.\<close>

datatype message =
    Dropped_old_table
  | Created_parent_table
  | Partition_ensured string
  | Dropped_old_partition string
  | Inserted_logs int
  | Batch_insert_failed dberr
  | Running_cleanup_job
  | Cleanup_already_running_skipping

definition partition_start :: "instant \<Rightarrow> instant" where
  "partition_start t = Truncate t Minute"

definition partition_stop :: "instant \<Rightarrow> instant" where
  "partition_stop t = Add (partition_start t) Minute"

text \<open>
  The statement of \<^verbatim>\<open>ensurePartition\<close>. \<open>start\<close> and \<open>end\<close> have the location of \<open>t\<close>: the name
  is \<open>start\<close> formatted there, and the two bounds are the civil times that
  \<^verbatim>\<open>start.Format("2006-01-02 15:04:05")\<close> and \<^verbatim>\<open>end.Format("2006-01-02 15:04:05")\<close> write.
\<close>

definition ensure_stmt :: "location \<Rightarrow> instant \<Rightarrow> sql" where
  "ensure_stmt loc t =
     CreatePartitionIfNotExists (partition_name loc (partition_start t))
       (locabs loc (partition_start t)) (locabs loc (partition_stop t))"

text \<open>
  \<^verbatim>\<open>ensurePartition(db, t)\<close> for a time \<open>t\<close> in the location \<open>loc\<close>: the error returned
  (\<open>None\<close> is \<^verbatim>\<open>nil\<close>), the database, the messages printed.
\<close>

definition ensurePartition ::
  "location \<Rightarrow> dberr option \<Rightarrow> database \<Rightarrow> instant \<Rightarrow> dberr option \<times> database \<times> message list" where
  "ensurePartition loc fault db t =
     (case db_Exec fault db (ensure_stmt loc t) of
        Inl e \<Rightarrow> (Some e, db, [])
      | Inr (_, db') \<Rightarrow> (None, db', [Partition_ensured (partition_name loc (partition_start t))]))"

text \<open>
  \<^verbatim>\<open>cutoff := time.Now().Add(-time.Duration(olderThanSeconds) * time.Second)\<close>, with
  \<^verbatim>\<open>int\<close> and \<^verbatim>\<open>time.Duration\<close> both 64 bits wide: the negation and the product wrap.
\<close>

definition cutoff_of :: "instant \<Rightarrow> 64 word \<Rightarrow> instant" where
  "cutoff_of now olderThanSeconds = Add now (sint ((- olderThanSeconds) * 1000000000))"

definition drop_stmt :: "location \<Rightarrow> instant \<Rightarrow> 64 word \<Rightarrow> sql" where
  "drop_stmt loc now olderThanSeconds =
     DropTableIfExistsCascade (partition_name loc (cutoff_of now olderThanSeconds))"

text \<open>
  \<^verbatim>\<open>dropOldPartitions(db, olderThanSeconds)\<close> at the time \<open>now\<close>, in the location \<open>loc\<close> of
  the process (\<^verbatim>\<open>time.Now()\<close> is in \<^verbatim>\<open>time.Local\<close>). The Go function has no result: the
  model returns the database and the messages printed only.
\<close>

definition dropOldPartitions ::
  "location \<Rightarrow> dberr option \<Rightarrow> database \<Rightarrow> instant \<Rightarrow> 64 word \<Rightarrow> database \<times> message list" where
  "dropOldPartitions loc fault db now olderThanSeconds =
     (case db_Exec fault db (drop_stmt loc now olderThanSeconds) of
        Inl e \<Rightarrow> (db, [])
      | Inr (_, db') \<Rightarrow>
          (db', [Dropped_old_partition (partition_name loc (cutoff_of now olderThanSeconds))]))"

section \<open>The program: the batch writer\<close>

definition methods :: "string list" where
  "methods = [''POST'', ''GET'', ''DELETE'', ''PUT'', ''PATCH'']"

text \<open>
  The failures the calls of one batch can meet, and the random source: \<open>rnd i\<close> is what
  the \<open>i\<close>-th call of \<^verbatim>\<open>rand.Intn\<close> draws, reduced into range. The loop counter stays
  below \<^verbatim>\<open>amountOfLogs\<close>, so it cannot wrap: both are plain integers here.

  \<^verbatim>\<open>stmt.Exec(method, now)\<close> hands \<open>now\<close> to the driver, which writes its date and time of
  day in the location of \<open>now\<close>, followed by the offset; the column has no zone and
  keeps the date and the time of day. The row gets the civil time of \<open>now\<close> in the
  location of the process.
\<close>

record faults =
  f_ensure :: "dberr option"
  f_begin :: "dberr option"
  f_prepare :: "dberr option"
  f_exec :: "nat \<Rightarrow> dberr option"
  f_commit :: "dberr option"

definition Intn :: "(nat \<Rightarrow> nat) \<Rightarrow> nat \<Rightarrow> nat \<Rightarrow> nat" where
  "Intn rnd i n = rnd i mod n"

function insert_loop ::
  "location \<Rightarrow> (nat \<Rightarrow> dberr option) \<Rightarrow> (nat \<Rightarrow> nat) \<Rightarrow> instant \<Rightarrow> int \<Rightarrow> int \<Rightarrow> database \<Rightarrow>
     dberr + database" where
  "insert_loop loc fx rnd now amountOfLogs i tx =
     (if i < amountOfLogs then
        (case stmt_Exec (fx (nat i)) tx
                \<lparr>row_method = methods ! Intn rnd (nat i) (length methods),
                 created_at = locabs loc now\<rparr> of
           Inl e \<Rightarrow> Inl e
         | Inr tx' \<Rightarrow> insert_loop loc fx rnd now amountOfLogs (i + 1) tx')
      else Inr tx)"
  by pat_completeness auto
termination
  by (relation "measure (\<lambda>(loc, fx, rnd, now, amountOfLogs, i, tx). nat (amountOfLogs - i))") auto

declare insert_loop.simps [simp del]

text \<open>
  \<^verbatim>\<open>writeAuditLogsToDbBatch(db, amountOfLogs)\<close> at the time \<open>now\<close>, in the location \<open>loc\<close>
  of the process: the error returned, the database as other sessions see it
  afterwards, and the messages printed.
\<close>

definition writeAuditLogsToDbBatch ::
  "location \<Rightarrow> faults \<Rightarrow> (nat \<Rightarrow> nat) \<Rightarrow> database \<Rightarrow> instant \<Rightarrow> int \<Rightarrow>
     dberr option \<times> database \<times> message list" where
  "writeAuditLogsToDbBatch loc fl rnd db now amountOfLogs =
     (case ensurePartition loc (f_ensure fl) db now of
        (Some e, db1, out) \<Rightarrow> (Some e, db1, out)
      | (None, db1, out) \<Rightarrow>
          (case db_Begin (f_begin fl) db1 of
             Inl e \<Rightarrow> (Some e, db1, out)
           | Inr tx \<Rightarrow>
               (case tx_Prepare (f_prepare fl) tx of
                  Inl e \<Rightarrow> (Some e, db1, out)
                | Inr _ \<Rightarrow>
                    (case insert_loop loc (f_exec fl) rnd now amountOfLogs 0 tx of
                       Inl e \<Rightarrow> (Some e, db1, out)
                     | Inr tx' \<Rightarrow>
                         (case tx_Commit (f_commit fl) tx' of
                            Inl e \<Rightarrow> (Some e, db1, out)
                          | Inr db2 \<Rightarrow> (None, db2, out))))))"

text \<open>One tick of \<^verbatim>\<open>insertAuditLogsRoutine\<close>.\<close>

definition insertAuditLogsRoutine_tick ::
  "location \<Rightarrow> faults \<Rightarrow> (nat \<Rightarrow> nat) \<Rightarrow> database \<Rightarrow> instant \<Rightarrow> int \<Rightarrow> database \<times> message list" where
  "insertAuditLogsRoutine_tick loc fl rnd db now amountOfLogs =
     (case writeAuditLogsToDbBatch loc fl rnd db now amountOfLogs of
        (Some e, db', out) \<Rightarrow> (db', out @ [Batch_insert_failed e])
      | (None, db', out) \<Rightarrow> (db', out @ [Inserted_logs amountOfLogs]))"

section \<open>The program: startup\<close>

text \<open>
  \<^verbatim>\<open>log.Fatal\<close> ends the process: a run of the startup code gives either the reason
  of the fatal exit or its result, next to the database as it is left and the
  messages printed.
\<close>

datatype fatal =
    Error_loading_configuration string
  | Cannot_connect_to_database dberr
  | Drop_error dberr
  | Failed_creating_parent_table dberr

definition resetTable :: "dberr option \<Rightarrow> database \<Rightarrow> fatal option \<times> database \<times> message list" where
  "resetTable fault db =
     (case db_Exec fault db (DropTableIfExistsCascade ''audit_logs'') of
        Inl e \<Rightarrow> (Some (Drop_error e), db, [])
      | Inr (_, db') \<Rightarrow> (None, db', [Dropped_old_table]))"

definition createRootTable :: "dberr option \<Rightarrow> database \<Rightarrow> fatal option \<times> database \<times> message list" where
  "createRootTable fault db =
     (case db_Exec fault db CreateRootTable of
        Inl e \<Rightarrow> (Some (Failed_creating_parent_table e), db, [])
      | Inr (_, db') \<Rightarrow> (None, db', [Created_parent_table]))"

section \<open>The program: configuration\<close>

text \<open>
  The environment (after \<^verbatim>\<open>godotenv.Load\<close>, whose result \<^verbatim>\<open>config.Load\<close> ignores) is a
  map from names to values; \<^verbatim>\<open>os.Getenv\<close> gives the empty string for a name that is
  not set.
\<close>

definition Getenv :: "(string \<rightharpoonup> string) \<Rightarrow> string \<Rightarrow> string" where
  "Getenv env key = (case env key of None \<Rightarrow> [] | Some v \<Rightarrow> v)"

text \<open>
  \<^verbatim>\<open>strconv.Atoi\<close> on a 64-bit platform: an optional sign, then one or more decimal
  digits, and a value that fits 64 bits; \<open>None\<close> is a returned error.
\<close>

definition Atoi :: "string \<Rightarrow> int option" where
  "Atoi s =
     (let (neg, ds) =
        (case s of
           [] \<Rightarrow> (False, [])
         | c # cs \<Rightarrow>
             if c = CHR ''-'' then (True, cs)
             else if c = CHR ''+'' then (False, cs)
             else (False, s));
          v = (if neg then - int (dec_val ds) else int (dec_val ds))
      in if ds = [] \<or> \<not> list_all is_digit ds then None
         else if v < - (2 ^ 63) \<or> 2 ^ 63 - 1 < v then None
         else Some v)"

record DatabaseConfig =
  Host :: string
  Port :: int
  User :: string
  Password :: string
  DBName :: string
  SSLMode :: string

text \<open>
  The type \<open>'f\<close> stands for \<^verbatim>\<open>float64\<close>, and \<^verbatim>\<open>strconv.ParseFloat(s, 64)\<close> is a parameter
  \<open>pf\<close> of the functions that call it (\<open>None\<close> is a returned error).
\<close>

record 'f TimingConfig =
  CleanupIntervalSeconds :: 'f
  MaxLogAgeSeconds :: int

record 'f Config =
  Database :: DatabaseConfig
  Timing :: "'f TimingConfig"

definition getEnv :: "(string \<rightharpoonup> string) \<Rightarrow> string \<Rightarrow> string \<Rightarrow> string" where
  "getEnv env key defaultValue = (if Getenv env key \<noteq> [] then Getenv env key else defaultValue)"

definition getEnvAsInt :: "(string \<rightharpoonup> string) \<Rightarrow> string \<Rightarrow> string + int" where
  "getEnvAsInt env key =
     (case Atoi (Getenv env key) of
        Some v \<Rightarrow> Inr v
      | None \<Rightarrow> Inl (''environment variable '' @ key @ '' is not a valid int''))"

definition getEnvAsFloat :: "(string \<Rightarrow> 'f option) \<Rightarrow> (string \<rightharpoonup> string) \<Rightarrow> string \<Rightarrow> string + 'f" where
  "getEnvAsFloat pf env key =
     (case pf (Getenv env key) of
        Some v \<Rightarrow> Inr v
      | None \<Rightarrow> Inl (''environment variable '' @ key @ '' is not a valid float''))"

definition Load :: "(string \<Rightarrow> 'f option) \<Rightarrow> (string \<rightharpoonup> string) \<Rightarrow> string + 'f Config" where
  "Load pf env =
     (case getEnvAsFloat pf env ''CLEANUP_INTERVAL_SECONDS'' of
        Inl err \<Rightarrow> Inl (''invalid CLEANUP_INTERVAL_SECONDS: '' @ err)
      | Inr cleanupInterval \<Rightarrow>
     (case getEnvAsInt env ''MAX_LOG_AGE_SECONDS'' of
        Inl err \<Rightarrow> Inl (''invalid MAX_LOG_AGE_SECONDS: '' @ err)
      | Inr maxLogAge \<Rightarrow>
     (case getEnvAsInt env ''POSTGRES_PORT'' of
        Inl err \<Rightarrow> Inl (''invalid POSTGRES_PORT: '' @ err)
      | Inr port \<Rightarrow>
          Inr \<lparr>Database =
                 \<lparr>Host = getEnv env ''POSTGRES_HOST'' ''localhost'',
                  Port = port,
                  User = getEnv env ''POSTGRES_USER'' ''user'',
                  Password = getEnv env ''POSTGRES_PASSWORD'' ''password'',
                  DBName = getEnv env ''POSTGRES_DB'' ''auditlogs'',
                  SSLMode = getEnv env ''POSTGRES_SSL_MODE'' ''disable''\<rparr>,
               Timing =
                 \<lparr>CleanupIntervalSeconds = cleanupInterval,
                  MaxLogAgeSeconds = maxLogAge\<rparr>\<rparr>)))"

text \<open>
  For the closed examples: a stand-in for \<^verbatim>\<open>strconv.ParseFloat\<close> that reads a decimal
  integer literal to its value and gives an error for the empty string, as
  \<^verbatim>\<open>ParseFloat\<close> does; it is applied to such strings only. The theorems about \<open>Load\<close>
  hold for every parser.
\<close>

definition ParseFloat_example :: "string \<Rightarrow> real option" where
  "ParseFloat_example s = map_option real_of_int (Atoi s)"

text \<open>
  \<^verbatim>\<open>main\<close> of \<^verbatim>\<open>main.go\<close> up to the start of the two goroutines: the configuration, the
  ping, \<^verbatim>\<open>resetTable\<close>, \<^verbatim>\<open>createRootTable\<close>. (\<^verbatim>\<open>sql.Open\<close> only records the driver
  and the connection string.)
\<close>

record main_faults =
  f_ping :: "dberr option"
  f_reset :: "dberr option"
  f_create :: "dberr option"

definition main_startup ::
  "(string \<Rightarrow> 'f option) \<Rightarrow> (string \<rightharpoonup> string) \<Rightarrow> main_faults \<Rightarrow> database \<Rightarrow>
     (fatal + 'f Config) \<times> database \<times> message list" where
  "main_startup pf env mf db =
     (case Load pf env of
        Inl err \<Rightarrow> (Inl (Error_loading_configuration err), db, [])
      | Inr cfg \<Rightarrow>
     (case f_ping mf of
        Some e \<Rightarrow> (Inl (Cannot_connect_to_database e), db, [])
      | None \<Rightarrow>
     (case resetTable (f_reset mf) db of
        (Some f, db1, out1) \<Rightarrow> (Inl f, db1, out1)
      | (None, db1, out1) \<Rightarrow>
     (case createRootTable (f_create mf) db1 of
        (Some f, db2, out2) \<Rightarrow> (Inl f, db2, out1 @ out2)
      | (None, db2, out2) \<Rightarrow> (Inr cfg, db2, out1 @ out2)))))"

text \<open>
  \<^verbatim>\<open>main\<close> of the cleaner-only program (the second \<^verbatim>\<open>package main\<close> with
  \<^verbatim>\<open>dropOldPartitions\<close>): the configuration and the ping, then the cleanup goroutine.
\<close>

definition cleaner_startup ::
  "(string \<Rightarrow> 'f option) \<Rightarrow> (string \<rightharpoonup> string) \<Rightarrow> dberr option \<Rightarrow> database \<Rightarrow>
     (fatal + 'f Config) \<times> database \<times> message list" where
  "cleaner_startup pf env ping db =
     (case Load pf env of
        Inl err \<Rightarrow> (Inl (Error_loading_configuration err), db, [])
      | Inr cfg \<Rightarrow>
     (case ping of
        Some e \<Rightarrow> (Inl (Cannot_connect_to_database e), db, [])
      | None \<Rightarrow> (Inr cfg, db, [])))"

section \<open>The program: the cleanup routine\<close>

text \<open>
  \<^verbatim>\<open>cleanupRoutine\<close> is one goroutine: a loop over the ticker's channel whose body calls
  \<^verbatim>\<open>dropOldPartitions\<close> and waits for it to return. The ticker runs beside it; its
  channel holds at most one tick, and a tick that finds the channel full is dropped.
  The state of the routine and what can happen next:
  \<^item> \<open>Tick_fires\<close>: the ticker delivers a tick to its channel;
  \<^item> \<open>Loop_receives now\<close>: the loop, waiting at \<^verbatim>\<open>range ticker.C\<close>, takes the tick, tests
    and sets \<^verbatim>\<open>isRunning\<close> under the mutex and, unless it skips, enters
    \<^verbatim>\<open>dropOldPartitions\<close>, which reads the clock (\<open>now\<close>);
  \<^item> \<open>Retire_returns fault\<close>: the statement of \<^verbatim>\<open>dropOldPartitions\<close> comes back (with
    the failure \<open>fault\<close>, if any) and the loop clears \<^verbatim>\<open>isRunning\<close>.
  An event that cannot happen in a state gives \<open>None\<close>. The location \<open>loc\<close> is the one of
  the process.
\<close>

record cleaner =
  cl_db :: database
  isRunning :: bool
  sweeping :: bool
  sweep_started :: instant
  tick_pending :: bool
  printed :: "message list"

datatype event =
    Tick_fires
  | Loop_receives instant
  | Retire_returns "dberr option"

definition cleaner_init :: "database \<Rightarrow> cleaner" where
  "cleaner_init db =
     \<lparr>cl_db = db, isRunning = False, sweeping = False, sweep_started = 0,
      tick_pending = False, printed = []\<rparr>"

fun cleanup_step :: "location \<Rightarrow> 64 word \<Rightarrow> cleaner \<Rightarrow> event \<Rightarrow> cleaner option" where
  "cleanup_step loc maxAgeSeconds s Tick_fires = Some (s\<lparr>tick_pending := True\<rparr>)"
| "cleanup_step loc maxAgeSeconds s (Loop_receives now) =
     (if sweeping s \<or> \<not> tick_pending s then None
      else if isRunning s then
        Some (s\<lparr>tick_pending := False,
                printed := printed s @ [Cleanup_already_running_skipping]\<rparr>)
      else
        Some (s\<lparr>tick_pending := False, isRunning := True, sweeping := True,
                sweep_started := now, printed := printed s @ [Running_cleanup_job]\<rparr>))"
| "cleanup_step loc maxAgeSeconds s (Retire_returns fault) =
     (if \<not> sweeping s then None
      else case dropOldPartitions loc fault (cl_db s) (sweep_started s) maxAgeSeconds of
        (db', out) \<Rightarrow>
          Some (s\<lparr>cl_db := db', printed := printed s @ out,
                  isRunning := False, sweeping := False\<rparr>))"

fun cleanupRoutine :: "location \<Rightarrow> 64 word \<Rightarrow> cleaner \<Rightarrow> event list \<Rightarrow> cleaner option" where
  "cleanupRoutine loc maxAgeSeconds s [] = Some s"
| "cleanupRoutine loc maxAgeSeconds s (e # es) =
     (case cleanup_step loc maxAgeSeconds s e of
        None \<Rightarrow> None
      | Some s' \<Rightarrow> cleanupRoutine loc maxAgeSeconds s' es)"

section \<open>Facts about the calendar\<close>

lemma div_bounds:
  fixes a c :: int
  assumes "0 < c"
  shows "c * (a div c) \<le> a" "a < c * (a div c) + c"
proof -
  have "a = c * (a div c) + a mod c" by simp
  moreover have "0 \<le> a mod c" "a mod c < c" using assms by simp_all
  ultimately show "c * (a div c) \<le> a" "a < c * (a div c) + c" by linarith+
qed

lemma r400_bounds: "0 \<le> r400 z \<and> r400 z < 146097"
  by (simp add: r400_def)

lemma n100_bounds: "0 \<le> n100 z \<and> n100 z \<le> 3"
  using r400_bounds [of z] by (simp add: n100_def pos_imp_zdiv_nonneg_iff)

lemma r100_bounds: "0 \<le> r100 z \<and> r100 z \<le> 36524"
  using r400_bounds [of z] div_bounds [of 36524 "r400 z"]
  unfolding r100_def n100_def min_def by (simp split: if_splits)

lemma n4_bounds: "0 \<le> n4 z \<and> n4 z \<le> 24"
  using r100_bounds [of z] div_bounds [of 1461 "r100 z"] unfolding n4_def by linarith

lemma r4_bounds: "0 \<le> r4 z \<and> r4 z < 1461"
  by (simp add: r4_def)

lemma n1_bounds: "0 \<le> n1 z \<and> n1 z \<le> 3"
  using r4_bounds [of z] by (simp add: n1_def pos_imp_zdiv_nonneg_iff)

lemma march_yday_bounds: "0 \<le> march_yday z \<and> march_yday z \<le> 365"
  using r4_bounds [of z] div_bounds [of 365 "r4 z"]
  unfolding march_yday_def n1_def min_def by (simp split: if_splits)

lemma march_month_bounds: "0 \<le> march_month z \<and> march_month z \<le> 11"
  using march_yday_bounds [of z] div_bounds [of 153 "5 * march_yday z + 2"]
  unfolding march_month_def by linarith

lemma day_of_days_bounds: "1 \<le> day_of_days z \<and> day_of_days z \<le> 31"
  using div_bounds [of 153 "5 * march_yday z + 2"]
    div_bounds [of 5 "153 * ((5 * march_yday z + 2) div 153) + 2"]
  unfolding day_of_days_def march_month_def by linarith

lemma month_of_days_bounds: "1 \<le> month_of_days z \<and> month_of_days z \<le> 12"
  using march_month_bounds [of z] by (simp add: month_of_days_def)

text \<open>One stage of the split: a quotient, capped or not, and what is left.\<close>

lemma stage_mono:
  fixes x y c k :: int
  assumes "x < y" "0 < c"
  shows "min k (x div c) < min k (y div c) \<or>
         (min k (x div c) = min k (y div c) \<and> x - c * min k (x div c) < y - c * min k (y div c))"
proof -
  have "x div c \<le> y div c" using assms by (simp add: zdiv_mono1)
  then have "min k (x div c) \<le> min k (y div c)" by (simp add: min_def)
  then consider "min k (x div c) < min k (y div c)" | "min k (x div c) = min k (y div c)" by linarith
  then show ?thesis
  proof cases
    case 1 then show ?thesis by simp
  next
    case 2 then show ?thesis using assms(1) by simp
  qed
qed

lemma stage_mono_div:
  fixes x y c :: int
  assumes "x < y" "0 < c"
  shows "x div c < y div c \<or> (x div c = y div c \<and> x mod c < y mod c)"
proof -
  have le: "x div c \<le> y div c" using assms by (simp add: zdiv_mono1)
  have "x = c * (x div c) + x mod c" "y = c * (y div c) + y mod c" by simp_all
  then have "x div c = y div c \<Longrightarrow> x mod c < y mod c" using assms(1) by (metis add_less_cancel_left)
  then show ?thesis using le by linarith
qed

lemma march_mono:
  assumes "z1 < z2"
  shows "march_year z1 < march_year z2 \<or>
         (march_year z1 = march_year z2 \<and> march_yday z1 < march_yday z2)"
proof -
  have a: "n400 z1 < n400 z2 \<or> (n400 z1 = n400 z2 \<and> r400 z1 < r400 z2)"
    unfolding n400_def r400_def
    using stage_mono_div [of "z1 + march_epoch" "z2 + march_epoch" 146097] assms by simp
  have b: "r400 z1 < r400 z2 \<Longrightarrow> n100 z1 < n100 z2 \<or> (n100 z1 = n100 z2 \<and> r100 z1 < r100 z2)"
    unfolding n100_def r100_def using stage_mono [of "r400 z1" "r400 z2" 36524 3] by simp
  have c: "r100 z1 < r100 z2 \<Longrightarrow> n4 z1 < n4 z2 \<or> (n4 z1 = n4 z2 \<and> r4 z1 < r4 z2)"
    unfolding n4_def r4_def using stage_mono_div [of "r100 z1" "r100 z2" 1461] by simp
  have d: "r4 z1 < r4 z2 \<Longrightarrow> n1 z1 < n1 z2 \<or> (n1 z1 = n1 z2 \<and> march_yday z1 < march_yday z2)"
    unfolding n1_def march_yday_def using stage_mono [of "r4 z1" "r4 z2" 365 3] by simp
  note bs = n100_bounds [of z1] n100_bounds [of z2] n4_bounds [of z1] n4_bounds [of z2]
    n1_bounds [of z1] n1_bounds [of z2]
  show ?thesis using a b c d bs unfolding march_year_def by (elim disjE conjE; linarith?)
qed

text \<open>
  The civil date grows with the day count: year, month, day in lexicographic order.
\<close>

lemma month_day_mono:
  assumes "march_year z1 = march_year z2" "march_yday z1 < march_yday z2"
  shows "march_month z1 < march_month z2 \<or>
         (march_month z1 = march_month z2 \<and> day_of_days z1 < day_of_days z2)"
proof -
  have "march_month z1 \<le> march_month z2"
    unfolding march_month_def using assms(2) by (simp add: zdiv_mono1)
  then show ?thesis using assms(2) unfolding day_of_days_def by auto
qed

lemma date_mono:
  assumes "z1 < z2"
  shows "year_of_days z1 < year_of_days z2 \<or>
         (year_of_days z1 = year_of_days z2 \<and>
            (month_of_days z1 < month_of_days z2 \<or>
             (month_of_days z1 = month_of_days z2 \<and> day_of_days z1 < day_of_days z2)))"
proof -
  note mb = march_month_bounds [of z1] march_month_bounds [of z2]
  from march_mono [OF assms] show ?thesis
  proof
    assume "march_year z1 < march_year z2"
    then show ?thesis using mb unfolding year_of_days_def month_of_days_def
      by (auto split: if_splits)
  next
    assume h: "march_year z1 = march_year z2 \<and> march_yday z1 < march_yday z2"
    then have "march_month z1 < march_month z2 \<or>
         (march_month z1 = march_month z2 \<and> day_of_days z1 < day_of_days z2)"
      using month_day_mono by blast
    then show ?thesis using h mb unfolding year_of_days_def month_of_days_def
      by (auto split: if_splits)
  qed
qed

section \<open>Facts about the clock and truncation\<close>

lemma sec_of_day_bounds: "0 \<le> sec_of_day t \<and> sec_of_day t < 86400"
  by (simp add: sec_of_day_def)

lemma Hour_bounds: "0 \<le> Hour t \<and> Hour t \<le> 23"
  using sec_of_day_bounds [of t] div_bounds [of 3600 "sec_of_day t"]
  unfolding Hour_def by linarith

lemma Minute_of_bounds: "0 \<le> Minute_of t \<and> Minute_of t \<le> 59"
  using div_bounds [of 3600 "sec_of_day t"]
    div_bounds [of 60 "sec_of_day t - 3600 * (sec_of_day t div 3600)"]
  unfolding Minute_of_def Hour_def by linarith

lemma Second_of_bounds: "0 \<le> Second_of t \<and> Second_of t \<le> 59"
  using div_bounds [of 60 "sec_of_day t - 3600 * (sec_of_day t div 3600)"]
  unfolding Second_of_def Minute_of_def Hour_def by linarith

lemma Month_bounds: "1 \<le> Month t \<and> Month t \<le> 12"
  by (simp add: Month_def month_of_days_bounds)

lemma Day_bounds: "1 \<le> Day t \<and> Day t \<le> 31"
  by (simp add: Day_def day_of_days_bounds)

text \<open>Truncation to the minute: a multiple of a minute, at most one minute below.\<close>

lemma Truncate_Minute: "Truncate t Minute = t - t mod 60000000000"
proof -
  have "(t + 62135596800 * 1000000000) mod 60000000000 = t mod 60000000000"
  proof -
    have "(62135596800 * 1000000000 :: int) = 60000000000 * 1035593280" by simp
    then show ?thesis by (metis mod_mult_self2)
  qed
  then show ?thesis by (simp add: Truncate_def Minute_def Second_def unixToInternal_def)
qed

lemma Truncate_Minute_aligned: "Truncate t Minute mod Minute = 0"
proof -
  have "(t - t mod 60000000000) mod 60000000000 = 0" by (simp add: minus_mod_eq_mult_div)
  then show ?thesis by (simp add: Truncate_Minute) (simp add: Minute_def Second_def)
qed

lemma Truncate_Minute_idem: "s mod Minute = 0 \<Longrightarrow> Truncate s Minute = s"
  by (simp add: Truncate_Minute) (simp add: Minute_def Second_def)

lemma unix_sec_aligned:
  assumes "s mod Minute = 0"
  shows "unix_sec s = 60 * (s div Minute)" "s = Minute * (s div Minute)"
proof -
  show b: "s = Minute * (s div Minute)" using assms mult_div_mod_eq [of Minute s] by simp
  have "Minute * (s div Minute) div Second = 60 * (s div Minute)"
    by (simp add: Minute_def Second_def)
  then show "unix_sec s = 60 * (s div Minute)" using b unfolding unix_sec_def by metis
qed

lemma Second_of_aligned:
  assumes "s mod Minute = 0"
  shows "Second_of s = 0"
proof -
  let ?k = "s div Minute"
  have u: "unix_sec s = 60 * ?k" using unix_sec_aligned [OF assms] by simp
  have "sec_of_day s mod 60 = 0"
  proof -
    have "(60 * ?k) mod 86400 = 60 * (?k mod 1440)" by (simp add: mult_mod_right)
    then show ?thesis by (simp add: sec_of_day_def u)
  qed
  moreover have "Second_of s = sec_of_day s mod 60"
  proof -
    have "Second_of s = (sec_of_day s - 3600 * (sec_of_day s div 3600)) mod 60"
      unfolding Second_of_def Minute_of_def Hour_def by (simp add: minus_mult_div_eq_mod algebra_simps)
    also have "\<dots> = (sec_of_day s mod 3600) mod 60" by (simp add: minus_mult_div_eq_mod)
    also have "\<dots> = sec_of_day s mod 60" by (simp add: mod_mod_cancel)
    finally show ?thesis .
  qed
  ultimately show ?thesis by simp
qed

text \<open>The clock fields grow with the second count.\<close>

lemma clock_mono:
  assumes "unix_sec t1 < unix_sec t2"
  shows "unix_day t1 < unix_day t2 \<or>
         (unix_day t1 = unix_day t2 \<and>
          (Hour t1 < Hour t2 \<or>
           (Hour t1 = Hour t2 \<and>
            (Minute_of t1 < Minute_of t2 \<or>
             (Minute_of t1 = Minute_of t2 \<and> Second_of t1 < Second_of t2)))))"
proof -
  have a: "unix_day t1 < unix_day t2 \<or> (unix_day t1 = unix_day t2 \<and> sec_of_day t1 < sec_of_day t2)"
    unfolding unix_day_def sec_of_day_def using stage_mono_div [OF assms, of 86400] by simp
  have b: "sec_of_day t1 < sec_of_day t2 \<Longrightarrow>
     Hour t1 < Hour t2 \<or> (Hour t1 = Hour t2 \<and>
       sec_of_day t1 - 3600 * Hour t1 < sec_of_day t2 - 3600 * Hour t2)"
    unfolding Hour_def using stage_mono_div [of "sec_of_day t1" "sec_of_day t2" 3600]
    by (simp add: minus_mult_div_eq_mod)
  have c: "sec_of_day t1 - 3600 * Hour t1 < sec_of_day t2 - 3600 * Hour t2 \<Longrightarrow>
     Minute_of t1 < Minute_of t2 \<or> (Minute_of t1 = Minute_of t2 \<and> Second_of t1 < Second_of t2)"
    unfolding Minute_of_def Second_of_def
    using stage_mono_div [of "sec_of_day t1 - 3600 * Hour t1" "sec_of_day t2 - 3600 * Hour t2" 60]
    by (simp add: minus_mult_div_eq_mod)
  show ?thesis using a b c by blast
qed

text \<open>
  For instants on a minute boundary, the five fields of the layout
  \<^verbatim>\<open>"20060102_1504"\<close> are strictly increasing in lexicographic order.
\<close>

lemma fields_mono:
  assumes "s1 mod Minute = 0" "s2 mod Minute = 0" "s1 < s2"
  shows "Year s1 < Year s2 \<or> (Year s1 = Year s2 \<and>
          (Month s1 < Month s2 \<or> (Month s1 = Month s2 \<and>
            (Day s1 < Day s2 \<or> (Day s1 = Day s2 \<and>
              (Hour s1 < Hour s2 \<or> (Hour s1 = Hour s2 \<and> Minute_of s1 < Minute_of s2)))))))"
proof -
  have "s1 div Minute < s2 div Minute"
    using unix_sec_aligned(2) [OF assms(1)] unix_sec_aligned(2) [OF assms(2)] assms(3)
    by (metis Minute_def Second_def mult_less_cancel_left_pos zero_less_numeral mult_pos_pos)
  then have "unix_sec s1 < unix_sec s2"
    using unix_sec_aligned(1) [OF assms(1)] unix_sec_aligned(1) [OF assms(2)] by simp
  from clock_mono [OF this] show ?thesis
  proof (elim disjE conjE)
    assume "unix_day s1 < unix_day s2"
    from date_mono [OF this] show ?thesis unfolding Year_def Month_def Day_def by blast
  qed (simp_all add: Year_def Month_def Day_def Second_of_aligned [OF assms(1)] Second_of_aligned [OF assms(2)])
qed

section \<open>Facts about the decimal fields\<close>

lemma of_char_digit_char: "d < 10 \<Longrightarrow> (of_char (digit_char d) :: nat) = 48 + d"
proof -
  assume "d < 10"
  then have "d = 0 \<or> d = 1 \<or> d = 2 \<or> d = 3 \<or> d = 4 \<or> d = 5 \<or> d = 6 \<or> d = 7 \<or> d = 8 \<or> d = 9"
    by arith
  then show ?thesis by (elim disjE) (simp_all add: digit_char_def)
qed

lemma digit_char_less: "a < 10 \<Longrightarrow> b < 10 \<Longrightarrow> (digit_char a < digit_char b) = (a < b)"
  by (simp add: less_char_def of_char_digit_char)

lemma digit_char_eq: "a < 10 \<Longrightarrow> b < 10 \<Longrightarrow> (digit_char a = digit_char b) = (a = b)"
  by (metis of_char_digit_char add_left_cancel)

lemma digit_val_digit_char: "d < 10 \<Longrightarrow> digit_val (digit_char d) = d"
  by (simp add: digit_val_def of_char_digit_char)

lemma is_digit_iff: "is_digit c = (48 \<le> (of_char c :: nat) \<and> (of_char c :: nat) \<le> 57)"
proof
  assume "is_digit c"
  then show "48 \<le> (of_char c :: nat) \<and> (of_char c :: nat) \<le> 57"
    unfolding is_digit_def by auto
next
  assume h: "48 \<le> (of_char c :: nat) \<and> (of_char c :: nat) \<le> 57"
  define d where "d = (of_char c :: nat) - 48"
  have "d < 10" using h unfolding d_def by arith
  moreover have "(of_char c :: nat) = 48 + d" using h by (simp add: d_def)
  ultimately have "(of_char c :: nat) = of_char (digit_char d)" by (simp add: of_char_digit_char)
  then have "c = digit_char d" by simp
  moreover have "is_digit (digit_char d)"
  proof -
    from \<open>d < 10\<close>
    have "d = 0 \<or> d = 1 \<or> d = 2 \<or> d = 3 \<or> d = 4 \<or> d = 5 \<or> d = 6 \<or> d = 7 \<or> d = 8 \<or> d = 9"
      by arith
    then show ?thesis by (elim disjE) (simp_all add: digit_char_def is_digit_def)
  qed
  ultimately show "is_digit c" by simp
qed

lemma is_digit_digit_char: "d < 10 \<Longrightarrow> is_digit (digit_char d)"
  by (simp add: is_digit_iff of_char_digit_char)

lemma digits_all_digit: "list_all is_digit (digits n)"
proof (induction n rule: digits.induct)
  case (1 n)
  show ?case
  proof (cases "n < 10")
    case True
    then show ?thesis by (simp add: digits.simps [of n] is_digit_digit_char)
  next
    case False
    then show ?thesis using 1 by (simp add: digits.simps [of n] is_digit_digit_char)
  qed
qed

lemma digits_not_Nil: "digits n \<noteq> []"
  by (simp add: digits.simps [of n])

lemma dec_val_snoc: "dec_val (cs @ [c]) = 10 * dec_val cs + digit_val c"
  by (simp add: dec_val_def)

lemma dec_val_digits: "dec_val (digits n) = n"
proof (induction n rule: digits.induct)
  case (1 n)
  show ?case
  proof (cases "n < 10")
    case True
    then show ?thesis by (simp add: digits.simps [of n] dec_val_def digit_val_digit_char)
  next
    case False
    then have "dec_val (digits n) = 10 * dec_val (digits (n div 10)) + digit_val (digit_char (n mod 10))"
      by (simp add: digits.simps [of n] dec_val_snoc)
    then show ?thesis using 1 False by (simp add: digit_val_digit_char)
  qed
qed

lemma dec_val_zeros: "dec_val (replicate k CHR ''0'' @ cs) = dec_val cs"
proof (induction k)
  case 0
  then show ?case by simp
next
  case (Suc k)
  have "foldl (\<lambda>a c. 10 * a + digit_val c) 0 (CHR ''0'' # replicate k CHR ''0'' @ cs) =
        foldl (\<lambda>a c. 10 * a + digit_val c) 0 (replicate k CHR ''0'' @ cs)"
    by (simp add: digit_val_def)
  then show ?case using Suc by (simp add: dec_val_def)
qed

text \<open>The digits of a field, without the sign.\<close>

lemma appendInt_nonneg:
  "0 \<le> x \<Longrightarrow> appendInt x w = replicate (w - length (digits (nat x))) CHR ''0'' @ digits (nat x)"
  by (simp add: appendInt_def)

lemma appendInt_neg:
  "x < 0 \<Longrightarrow> appendInt x w =
     CHR ''-'' # replicate (w - length (digits (nat (- x)))) CHR ''0'' @ digits (nat (- x))"
  by (simp add: appendInt_def)

lemma body_props:
  fixes n w :: nat
  defines "body \<equiv> replicate (w - length (digits n)) CHR ''0'' @ digits n"
  shows "body \<noteq> []" "list_all is_digit body" "dec_val body = n"
proof -
  show "body \<noteq> []" by (simp add: body_def digits_not_Nil)
  have "is_digit CHR ''0''" by (simp add: is_digit_def)
  then show "list_all is_digit body"
    using digits_all_digit [of n] by (auto simp: body_def list_all_iff)
  show "dec_val body = n" by (simp add: body_def dec_val_zeros dec_val_digits)
qed

lemma appendInt_inj:
  assumes "appendInt x w = appendInt y w"
  shows "x = y"
proof -
  have nd: "\<not> is_digit CHR ''-''" by (simp add: is_digit_def)
  have hd_body: "\<And>n. hd (replicate (w - length (digits n)) CHR ''0'' @ digits n) \<noteq> CHR ''-''"
  proof -
    fix n :: nat
    let ?b = "replicate (w - length (digits n)) CHR ''0'' @ digits n"
    have "?b \<noteq> []" "list_all is_digit ?b" using body_props [of w n] by simp_all
    then have "is_digit (hd ?b)" by (cases ?b) simp_all
    then show "hd ?b \<noteq> CHR ''-''" using nd by metis
  qed
  consider "0 \<le> x" "0 \<le> y" | "x < 0" "y < 0" | "x < 0" "0 \<le> y" | "0 \<le> x" "y < 0" by linarith
  then show ?thesis
  proof cases
    case 1
    then have "dec_val (appendInt x w) = nat x" "dec_val (appendInt y w) = nat y"
      using body_props(3) by (simp_all add: appendInt_nonneg)
    then show ?thesis using assms 1 by simp
  next
    case 2
    then have "replicate (w - length (digits (nat (- x)))) CHR ''0'' @ digits (nat (- x)) =
               replicate (w - length (digits (nat (- y)))) CHR ''0'' @ digits (nat (- y))"
      using assms by (simp add: appendInt_neg)
    then have "nat (- x) = nat (- y)" using body_props(3) by metis
    then show ?thesis using 2 by simp
  next
    case 3
    then have "hd (appendInt x w) = CHR ''-''" "hd (appendInt y w) \<noteq> CHR ''-''"
      using hd_body by (simp_all add: appendInt_neg appendInt_nonneg)
    then show ?thesis using assms by simp
  next
    case 4
    then have "hd (appendInt y w) = CHR ''-''" "hd (appendInt x w) \<noteq> CHR ''-''"
      using hd_body by (simp_all add: appendInt_neg appendInt_nonneg)
    then show ?thesis using assms by simp
  qed
qed

text \<open>A field of width \<open>w + 1\<close> is the field of width \<open>w\<close> of the tens, then the last digit.\<close>

lemma appendInt_snoc:
  assumes "0 \<le> x" "0 < w"
  shows "appendInt x (Suc w) = appendInt (x div 10) w @ [digit_char (nat x mod 10)]"
proof (cases "nat x < 10")
  case True
  then have x10: "x div 10 = 0" using assms by simp
  have d0: "digits 0 = [CHR ''0'']" by (simp add: digits.simps [of 0] digit_char_def)
  have "replicate (w - 1) CHR ''0'' @ [CHR ''0''] = replicate w CHR ''0''"
    using assms(2) by (metis Suc_pred' replicate_Suc replicate_append_same)
  then show ?thesis
    using True assms by (simp add: appendInt_nonneg x10 d0 digits.simps [of "nat x"])
next
  case False
  have "nat (x div 10) = nat x div 10" using assms by (simp add: nat_div_distrib)
  then show ?thesis
    using False assms by (simp add: appendInt_nonneg digits.simps [of "nat x"])
qed

lemma less_append_same_length:
  fixes a b :: string
  shows "length a = length b \<Longrightarrow> (a @ x < b @ y) = (a < b \<or> (a = b \<and> x < y))"
proof (induction a b rule: list_induct2)
  case Nil
  then show ?case by simp
next
  case (Cons u a v b)
  then show ?case by (simp add: Cons_less_Cons) blast
qed

lemma divmod_lex:
  fixes a b :: int
  shows "(a div 10 < b div 10 \<or> (a div 10 = b div 10 \<and> a mod 10 < b mod 10)) = (a < b)"
proof
  assume "a div 10 < b div 10 \<or> (a div 10 = b div 10 \<and> a mod 10 < b mod 10)"
  then show "a < b" using div_bounds [of 10 a] div_bounds [of 10 b]
    by (metis div_mult_mod_eq add_less_cancel_left mult.commute linorder_not_less zdiv_mono1 zero_less_numeral)
next
  assume "a < b"
  then show "a div 10 < b div 10 \<or> (a div 10 = b div 10 \<and> a mod 10 < b mod 10)"
    using stage_mono_div [of a b 10] by simp
qed

lemma appendInt_field:
  assumes "0 < w" "0 \<le> a" "a < 10 ^ w" "0 \<le> b" "b < 10 ^ w"
  shows "length (appendInt a w) = w \<and> list_all is_digit (appendInt a w) \<and>
         (appendInt a w < appendInt b w) = (a < b)"
  using assms
proof (induction w arbitrary: a b)
  case 0
  then show ?case by simp
next
  case (Suc w)
  show ?case
  proof (cases "w = 0")
    case True
    then have "nat a < 10" "nat b < 10" using Suc.prems by simp_all
    then show ?thesis using True Suc.prems
      by (auto simp: appendInt_nonneg digits.simps [of "nat a"] digits.simps [of "nat b"]
          digit_char_less is_digit_digit_char)
  next
    case False
    then have w: "0 < w" by simp
    have qa: "0 \<le> a div 10" "a div 10 < 10 ^ w" using Suc.prems by simp_all
    have qb: "0 \<le> b div 10" "b div 10 < 10 ^ w" using Suc.prems by simp_all
    have ra: "nat a mod 10 < 10" "nat b mod 10 < 10" by simp_all
    note iha = Suc.IH [OF w qa qb]
    note ihb = Suc.IH [OF w qb qa]
    have la: "length (appendInt (a div 10) w) = length (appendInt (b div 10) w)"
      using iha ihb by simp
    have eq: "(appendInt (a div 10) w = appendInt (b div 10) w) = (a div 10 = b div 10)"
      using appendInt_inj by auto
    have md: "(nat a mod 10 < nat b mod 10) = (a mod 10 < b mod 10)"
    proof -
      have e: "nat a mod 10 = nat (a mod 10)" "nat b mod 10 = nat (b mod 10)"
        using Suc.prems by (simp_all add: nat_mod_distrib)
      have "(nat (a mod 10) < nat (b mod 10)) = (a mod 10 < b mod 10)"
        by (rule nat_less_eq_zless) simp
      then show ?thesis by (simp only: e)
    qed
    have "(appendInt a (Suc w) < appendInt b (Suc w)) =
          (a div 10 < b div 10 \<or> (a div 10 = b div 10 \<and> a mod 10 < b mod 10))"
      using Suc.prems w iha
      by (simp add: appendInt_snoc less_append_same_length [OF la] eq digit_char_less md)
    then show ?thesis
      using Suc.prems w iha by (simp add: divmod_lex appendInt_snoc is_digit_digit_char)
  qed
qed

lemma appendInt2_length: "0 \<le> a \<Longrightarrow> a \<le> 99 \<Longrightarrow> length (appendInt a 2) = 2"
  using appendInt_field [of 2 a a] by simp

lemma appendInt2_digits: "0 \<le> a \<Longrightarrow> a \<le> 99 \<Longrightarrow> list_all is_digit (appendInt a 2)"
  using appendInt_field [of 2 a a] by simp

lemma appendInt2_less:
  "0 \<le> a \<Longrightarrow> a \<le> 99 \<Longrightarrow> 0 \<le> b \<Longrightarrow> b \<le> 99 \<Longrightarrow> (appendInt a 2 < appendInt b 2) = (a < b)"
  using appendInt_field [of 2 a b] by simp

lemma appendInt4_length: "0 \<le> a \<Longrightarrow> a \<le> 9999 \<Longrightarrow> length (appendInt a 4) = 4"
  using appendInt_field [of 4 a a] by simp

lemma appendInt4_digits: "0 \<le> a \<Longrightarrow> a \<le> 9999 \<Longrightarrow> list_all is_digit (appendInt a 4)"
  using appendInt_field [of 4 a a] by simp

lemma appendInt4_less:
  "0 \<le> a \<Longrightarrow> a \<le> 9999 \<Longrightarrow> 0 \<le> b \<Longrightarrow> b \<le> 9999 \<Longrightarrow>
     (appendInt a 4 < appendInt b 4) = (a < b)"
  using appendInt_field [of 4 a b] by simp

section \<open>Facts about the partition name\<close>

lemma div_eqI:
  fixes a c q :: int
  assumes "0 < c" "c * q \<le> a" "a < c * q + c"
  shows "a div c = q"
proof -
  have "c * (a div c) \<le> a" "a < c * (a div c) + c" using div_bounds [OF assms(1)] by simp_all
  then have "c * (a div c) < c * (q + 1)" "c * q < c * (a div c + 1)"
    using assms by (simp_all add: algebra_simps)
  then have "a div c < q + 1" "q < a div c + 1" using assms(1) by (simp_all only: mult_less_cancel_left_pos)
  then show ?thesis by simp
qed

text \<open>The clock in whole minutes since the epoch.\<close>

lemma unix_day_minutes: "unix_day t = unix_sec t div 60 div 1440"
proof -
  have "unix_sec t div (60 * 1440) = unix_sec t div 60 div 1440" by (rule zdiv_zmult2_eq) simp
  then show ?thesis by (simp add: unix_day_def)
qed

lemma sec_of_day_minutes: "sec_of_day t = 60 * (unix_sec t div 60 mod 1440) + unix_sec t mod 60"
proof -
  have "unix_sec t mod (60 * 1440) = 60 * (unix_sec t div 60 mod 1440) + unix_sec t mod 60"
    by (rule zmod_zmult2_eq) simp
  then show ?thesis by (simp add: sec_of_day_def)
qed

lemma Hour_minutes: "Hour t = unix_sec t div 60 mod 1440 div 60"
proof -
  let ?m = "unix_sec t div 60 mod 1440"
  let ?r = "unix_sec t mod 60"
  have r: "0 \<le> ?r" "?r < 60" by simp_all
  have q: "60 * (?m div 60) \<le> ?m" "?m < 60 * (?m div 60) + 60" using div_bounds [of 60 ?m] by simp_all
  have "(60 * ?m + ?r) div 3600 = ?m div 60"
    by (rule div_eqI) (use r q in linarith)+
  then show ?thesis by (simp add: Hour_def sec_of_day_minutes)
qed

lemma Minute_of_minutes: "Minute_of t = unix_sec t div 60 mod 1440 mod 60"
proof -
  let ?m = "unix_sec t div 60 mod 1440"
  let ?r = "unix_sec t mod 60"
  have r: "0 \<le> ?r" "?r < 60" by simp_all
  have m: "?m = 60 * (?m div 60) + ?m mod 60" by simp
  have "(60 * ?m + ?r - 3600 * (?m div 60)) div 60 = ?m mod 60"
    by (rule div_eqI) (use r m in linarith)+
  then show ?thesis by (simp add: Minute_of_def Hour_minutes [symmetric]) (simp add: sec_of_day_minutes)
qed

lemma unix_sec_Truncate: "unix_sec (Truncate t Minute) div 60 = unix_sec t div 60"
proof -
  have a: "Truncate t Minute mod Minute = 0" by (rule Truncate_Minute_aligned)
  have "Truncate t Minute div Minute = t div Minute"
  proof -
    have "(t - t mod 60000000000) div 60000000000 = t div 60000000000"
      by (simp add: minus_mod_eq_mult_div)
    then show ?thesis by (simp add: Truncate_Minute) (simp add: Minute_def Second_def)
  qed
  then have "unix_sec (Truncate t Minute) = 60 * (t div Minute)"
    using unix_sec_aligned(1) [OF a] by simp
  moreover have "unix_sec t div 60 = t div Minute"
  proof -
    have "t div (Second * 60) = t div Second div 60" by (rule zdiv_zmult2_eq) simp
    then show ?thesis by (simp add: unix_sec_def Minute_def mult.commute)
  qed
  ultimately show ?thesis by simp
qed

lemma civil_name_Truncate: "civil_name (Truncate t Minute) = civil_name t"
  by (simp add: civil_name_def layout_20060102_1504_def Year_def Month_def Day_def
      unix_day_minutes Hour_minutes Minute_of_minutes unix_sec_Truncate)

lemma Year_Truncate: "Year (Truncate t Minute) = Year t"
  by (simp add: Year_def unix_day_minutes unix_sec_Truncate)

text \<open>The four two-digit fields, and the four-digit year when it has four digits.\<close>

lemma field_lengths:
  "length (appendInt (Month t) 2) = 2" "length (appendInt (Day t) 2) = 2"
  "length (appendInt (Hour t) 2) = 2" "length (appendInt (Minute_of t) 2) = 2"
  using Month_bounds [of t] Day_bounds [of t] Hour_bounds [of t] Minute_of_bounds [of t]
  by (simp_all add: appendInt2_length)

lemma field_digits:
  "list_all is_digit (appendInt (Month t) 2)" "list_all is_digit (appendInt (Day t) 2)"
  "list_all is_digit (appendInt (Hour t) 2)" "list_all is_digit (appendInt (Minute_of t) 2)"
  using Month_bounds [of t] Day_bounds [of t] Hour_bounds [of t] Minute_of_bounds [of t]
  by (simp_all add: appendInt2_digits)

lemma Format_fields_eq:
  assumes "layout_20060102_1504 s1 = layout_20060102_1504 s2"
  shows "Year s1 = Year s2 \<and> Month s1 = Month s2 \<and> Day s1 = Day s2 \<and>
         Hour s1 = Hour s2 \<and> Minute_of s1 = Minute_of s2"
proof -
  let ?r1 = "appendInt (Month s1) 2 @ appendInt (Day s1) 2 @ ''_'' @
             appendInt (Hour s1) 2 @ appendInt (Minute_of s1) 2"
  let ?r2 = "appendInt (Month s2) 2 @ appendInt (Day s2) 2 @ ''_'' @
             appendInt (Hour s2) 2 @ appendInt (Minute_of s2) 2"
  have "length ?r1 = length ?r2" by (simp add: field_lengths)
  moreover have "appendInt (Year s1) 4 @ ?r1 = appendInt (Year s2) 4 @ ?r2"
    using assms by (simp add: layout_20060102_1504_def)
  ultimately have "appendInt (Year s1) 4 = appendInt (Year s2) 4 \<and> ?r1 = ?r2"
    by (metis append_eq_append_conv)
  then have y: "appendInt (Year s1) 4 = appendInt (Year s2) 4" and r: "?r1 = ?r2"
    by simp_all
  from r have "appendInt (Month s1) 2 = appendInt (Month s2) 2 \<and>
               appendInt (Day s1) 2 = appendInt (Day s2) 2 \<and>
               appendInt (Hour s1) 2 = appendInt (Hour s2) 2 \<and>
               appendInt (Minute_of s1) 2 = appendInt (Minute_of s2) 2"
    by (simp add: field_lengths append_eq_append_conv)
  then show ?thesis using y appendInt_inj by blast
qed

lemma civil_name_inj_aligned:
  assumes "s1 mod Minute = 0" "s2 mod Minute = 0" "civil_name s1 = civil_name s2"
  shows "s1 = s2"
proof (rule ccontr)
  assume ne: "s1 \<noteq> s2"
  have f: "Year s1 = Year s2 \<and> Month s1 = Month s2 \<and> Day s1 = Day s2 \<and>
         Hour s1 = Hour s2 \<and> Minute_of s1 = Minute_of s2"
    using assms(3) by (intro Format_fields_eq) (simp add: civil_name_def)
  from ne consider "s1 < s2" | "s2 < s1" by linarith
  then show False
  proof cases
    case 1
    from fields_mono [OF assms(1) assms(2) 1] f show False by simp
  next
    case 2
    from fields_mono [OF assms(2) assms(1) 2] f show False by simp
  qed
qed

lemma civil_name_less_aligned:
  assumes "s1 mod Minute = 0" "s2 mod Minute = 0"
    and y1: "0 \<le> Year s1" "Year s1 \<le> 9999" and y2: "0 \<le> Year s2" "Year s2 \<le> 9999"
  shows "(civil_name s1 < civil_name s2) = (s1 < s2)"
proof -
  let ?L = "\<lambda>a b. Year a < Year b \<or> (Year a = Year b \<and>
          (Month a < Month b \<or> (Month a = Month b \<and>
            (Day a < Day b \<or> (Day a = Day b \<and>
              (Hour a < Hour b \<or> (Hour a = Hour b \<and> Minute_of a < Minute_of b)))))))"
  note b = Month_bounds [of s1] Month_bounds [of s2] Day_bounds [of s1] Day_bounds [of s2]
    Hour_bounds [of s1] Hour_bounds [of s2] Minute_of_bounds [of s1] Minute_of_bounds [of s2]
  have ly: "length (appendInt (Year s1) 4) = length (appendInt (Year s2) 4)"
    using y1 y2 by (simp add: appendInt4_length)
  have e: "\<And>x y w. (appendInt x w = appendInt y w) = (x = y)" using appendInt_inj by blast
  have less: "(civil_name s1 < civil_name s2) = ?L s1 s2"
    unfolding civil_name_def layout_20060102_1504_def
    using y1 y2 b
    by (simp add: less_append_same_length ly field_lengths e appendInt4_less appendInt2_less)
  show ?thesis
  proof
    assume "civil_name s1 < civil_name s2"
    then have l: "?L s1 s2" using less by simp
    show "s1 < s2"
    proof (rule ccontr)
      assume "\<not> s1 < s2"
      then consider "s1 = s2" | "s2 < s1" by linarith
      then show False
      proof cases
        case 1
        then show False using l by simp
      next
        case 2
        from fields_mono [OF assms(2) assms(1) 2] l show False by linarith
      qed
    qed
  next
    assume "s1 < s2"
    from fields_mono [OF assms(1) assms(2) this] show "civil_name s1 < civil_name s2"
      using less by simp
  qed
qed

section \<open>Facts about the name in a location\<close>

lemma partition_name_civil: "partition_name loc t = civil_name (locabs loc t)"
  by (simp add: partition_name_def civil_name_def Format_20060102_1504_def)


lemma Truncate_mono: "a \<le> b \<Longrightarrow> Truncate a Minute \<le> Truncate b Minute"
proof -
  assume "a \<le> b"
  then have "a div 60000000000 \<le> b div 60000000000" by (rule zdiv_mono1) simp
  then have "60000000000 * (a div 60000000000) \<le> 60000000000 * (b div 60000000000)" by simp
  then show ?thesis by (simp add: Truncate_Minute minus_mod_eq_mult_div)
qed

lemma Truncate_add_Minute: "Truncate (a + Minute) Minute = Truncate a Minute + Minute"
proof -
  have "(a + 60000000000) mod 60000000000 = a mod 60000000000" by simp
  then show ?thesis by (simp add: Truncate_Minute) (simp add: Minute_def Second_def)
qed

lemma Truncate_shift:
  assumes "m mod 60 = 0"
  shows "Truncate (a + m * Second) Minute = Truncate a Minute + m * Second"
proof -
  have "m = 60 * (m div 60)" using assms mult_div_mod_eq [of 60 m] by simp
  then have "m * 1000000000 = 60000000000 * (m div 60)" by simp
  then have "(a + m * 1000000000) mod 60000000000 = a mod 60000000000"
    by (metis mod_mult_self2)
  then show ?thesis by (simp add: Truncate_Minute) (simp add: Second_def)
qed

lemma aligned_apart:
  assumes "a mod Minute = 0" "b mod Minute = 0" "a < b"
  shows "a + Minute \<le> b"
proof -
  have m: "0 < Minute" by (simp add: Minute_def Second_def)
  have a: "a = Minute * (a div Minute)" and b: "b = Minute * (b div Minute)"
    using unix_sec_aligned(2) [OF assms(1)] unix_sec_aligned(2) [OF assms(2)] by simp_all
  have "Minute * (a div Minute) < Minute * (b div Minute)" using a b assms(3) by simp
  then have "a div Minute < b div Minute" using m by (simp only: mult_less_cancel_left_pos)
  then have "a div Minute + 1 \<le> b div Minute" by simp
  then have "Minute * (a div Minute + 1) \<le> Minute * (b div Minute)"
    using m by (simp only: mult_le_cancel_left_pos)
  then show ?thesis using a b by (simp add: algebra_simps)
qed

text \<open>
  Two civil times in different minutes have different names, in the order of the
  minutes when both years have four digits.
\<close>

lemma civil_name_apart:
  assumes "Truncate x Minute < Truncate y Minute"
  shows "civil_name x \<noteq> civil_name y"
    and "0 \<le> Year x \<Longrightarrow> Year x \<le> 9999 \<Longrightarrow> 0 \<le> Year y \<Longrightarrow> Year y \<le> 9999 \<Longrightarrow>
         civil_name x < civil_name y"
proof -
  have a: "Truncate x Minute mod Minute = 0" "Truncate y Minute mod Minute = 0"
    by (simp_all add: Truncate_Minute_aligned)
  show "civil_name x \<noteq> civil_name y"
  proof
    assume "civil_name x = civil_name y"
    then have "civil_name (Truncate x Minute) = civil_name (Truncate y Minute)"
      by (simp add: civil_name_Truncate)
    from civil_name_inj_aligned [OF a this] assms show False by simp
  qed
  assume y: "0 \<le> Year x" "Year x \<le> 9999" "0 \<le> Year y" "Year y \<le> 9999"
  have "(civil_name (Truncate x Minute) < civil_name (Truncate y Minute)) =
        (Truncate x Minute < Truncate y Minute)"
    by (rule civil_name_less_aligned [OF a]) (simp_all add: Year_Truncate y)
  then show "civil_name x < civil_name y" using assms by (simp add: civil_name_Truncate)
qed

text \<open>
  An instant at least a minute after another is in a later minute of the zone's
  clock, unless the clock was set back in between.
\<close>

lemma civil_minutes_apart:
  assumes "a + Minute \<le> b" "loc a \<le> loc b"
  shows "Truncate (locabs loc a) Minute < Truncate (locabs loc b) Minute"
proof -
  have m: "0 < Minute" by (simp add: Minute_def Second_def)
  have "loc a * Second \<le> loc b * Second" using assms(2) by (simp add: Second_def)
  then have "locabs loc a + Minute \<le> locabs loc b" using assms(1) by (simp add: locabs_def)
  then have "Truncate (locabs loc a + Minute) Minute \<le> Truncate (locabs loc b) Minute"
    by (rule Truncate_mono)
  then show ?thesis using m by (simp add: Truncate_add_Minute)
qed


text \<open>
  The name of an instant against the name of the start of another minute: they differ
  when the offset at the instant is a whole number of minutes and the clock is not
  set back between the two.
\<close>

lemma partition_name_other_minute:
  assumes "a mod Minute = 0" "a \<noteq> Truncate c Minute" "loc c mod 60 = 0" "not_set_back loc a c"
  shows "partition_name loc a \<noteq> partition_name loc c"
proof -
  let ?c0 = "Truncate c Minute"
  have m: "0 < Minute" by (simp add: Minute_def Second_def)
  have c0: "?c0 mod Minute = 0" by (rule Truncate_Minute_aligned)
  have b: "?c0 \<le> c" "c < ?c0 + Minute"
  proof -
    have "0 \<le> c mod 60000000000" "c mod 60000000000 < 60000000000" by simp_all
    then show "?c0 \<le> c" "c < ?c0 + Minute"
      by (simp_all add: Truncate_Minute) (simp_all add: Minute_def Second_def)
  qed
  from assms(2) consider "a < ?c0" | "?c0 < a" by linarith
  then show ?thesis
  proof cases
    case 1
    have "a + Minute \<le> ?c0" using assms(1) c0 1 by (rule aligned_apart)
    then have ac: "a + Minute \<le> c" using b(1) by simp
    then have "a \<le> c" using m by simp
    then have "loc a \<le> loc c" using assms(4) by (simp add: not_set_back_def)
    with ac have "Truncate (locabs loc a) Minute < Truncate (locabs loc c) Minute"
      by (rule civil_minutes_apart)
    from civil_name_apart(1) [OF this] show ?thesis by (simp add: partition_name_civil)
  next
    case 2
    have ca: "?c0 + Minute \<le> a" using c0 assms(1) 2 by (rule aligned_apart)
    then have "c \<le> a" using b(2) by simp
    then have o: "loc c \<le> loc a" using assms(4) by (simp add: not_set_back_def)
    have tc: "Truncate (locabs loc c) Minute = ?c0 + loc c * Second"
      unfolding locabs_def using assms(3) by (rule Truncate_shift)
    have "loc c * Second \<le> loc a * Second" using o by (simp add: Second_def)
    then have "(?c0 + loc c * Second) + Minute \<le> locabs loc a" using ca by (simp add: locabs_def)
    then have "Truncate ((?c0 + loc c * Second) + Minute) Minute \<le> Truncate (locabs loc a) Minute"
      by (rule Truncate_mono)
    moreover have "Truncate (?c0 + loc c * Second) Minute = ?c0 + loc c * Second"
      using Truncate_shift [OF assms(3), of ?c0] Truncate_Minute_idem [OF c0] by simp
    ultimately have "Truncate (locabs loc c) Minute < Truncate (locabs loc a) Minute"
      using m tc by (simp add: Truncate_add_Minute)
    from civil_name_apart(1) [OF this] show ?thesis by (simp add: partition_name_civil)
  qed
qed

text \<open>
  When the offset is a whole number of minutes and the same at an instant and at the
  start of its minute, the start has the name of the instant.
\<close>

lemma partition_name_start:
  assumes "loc (partition_start t) = loc t" "loc t mod 60 = 0"
  shows "partition_name loc (partition_start t) = partition_name loc t"
proof -
  have "locabs loc (partition_start t) = Truncate (locabs loc t) Minute"
    using assms(1) Truncate_shift [OF assms(2), of t]
    by (simp add: locabs_def partition_start_def)
  then show ?thesis by (simp add: partition_name_civil civil_name_Truncate)
qed

lemma partition_name_not_parent: "partition_name loc t \<noteq> ''audit_logs''"
proof
  assume "partition_name loc t = ''audit_logs''"
  then have "length (partition_name loc t) = 10" by simp
  then show False by (simp add: partition_name_def)
qed

text \<open>The text of the statement of \<^verbatim>\<open>ensurePartition\<close>, as the program builds it.\<close>

lemma ensure_stmt_text:
  "sql_text (ensure_stmt loc t) =
     ''CREATE TABLE IF NOT EXISTS '' @ partition_name loc (partition_start t) @
     '' PARTITION OF audit_logs FOR VALUES FROM ('' @
     [CHR 0x27] @ Format_datetime loc (partition_start t) @ [CHR 0x27] @ '') TO ('' @
     [CHR 0x27] @ Format_datetime loc (partition_stop t) @ [CHR 0x27] @ '');''"
  by (simp add: sql_text_def ensure_stmt_def Format_datetime_def)

section \<open>Evaluating the model on concrete inputs\<close>

lemmas civil_defs =
  Year_def Month_def Day_def Hour_def Minute_of_def Second_of_def unix_day_def unix_sec_def
  sec_of_day_def year_of_days_def month_of_days_def day_of_days_def march_month_def
  march_yday_def march_year_def n1_def r4_def n4_def r100_def n100_def r400_def n400_def
  march_epoch_def Second_def Minute_def

lemma replicate_small: "replicate 2 c = [c, c]" "replicate 3 c = [c, c, c]"
  by (simp_all add: numeral_2_eq_2 numeral_3_eq_3)

lemmas format_defs =
  partition_name_civil civil_name_def layout_20060102_1504_def Format_datetime_def
  layout_datetime_def appendInt_def digits.simps digit_char_def replicate_small

lemmas zone_defs =
  locabs_def UTC_def Kolkata_def New_York_2024_def not_set_back_def

lemmas truncate_defs =
  partition_start_def partition_stop_def Truncate_def Add_def unixToInternal_def

text \<open>
  Known dates: the Unix epoch, the last second before it, the leap days of 2000 and
  2024, the day after February 28 of 2100 (no leap year), the first instant of Go's
  year 1, and a second before midnight on the last day of 2024.
\<close>

lemma Format_known_dates:
  "Format_datetime UTC 0 = ''1970-01-01 00:00:00''"
  "Format_datetime UTC (- 1 * Second) = ''1969-12-31 23:59:59''"
  "Format_datetime UTC (951782400 * Second) = ''2000-02-29 00:00:00''"
  "Format_datetime UTC (1709164800 * Second) = ''2024-02-29 00:00:00''"
  "Format_datetime UTC (4107542400 * Second) = ''2100-03-01 00:00:00''"
  "Format_datetime UTC (- unixToInternal * Second) = ''0001-01-01 00:00:00''"
  "Format_datetime UTC (1735689599 * Second) = ''2024-12-31 23:59:59''"
  by (simp_all add: civil_defs format_defs zone_defs unixToInternal_def)

text \<open>
  The same instant in three zones, and the two changes of the clock of New York in
  2024: from 01:59:59 to 03:00:00 on March 10, and from 01:59:59 back to 01:00:00 on
  November 3.
\<close>

lemma Format_known_zones:
  "Format_datetime UTC (1704111000 * Second) = ''2024-01-01 12:10:00''"
  "Format_datetime Kolkata (1704111000 * Second) = ''2024-01-01 17:40:00''"
  "Format_datetime New_York_2024 (1704111000 * Second) = ''2024-01-01 07:10:00''"
  "Format_datetime New_York_2024 (1710053999 * Second) = ''2024-03-10 01:59:59''"
  "Format_datetime New_York_2024 (1710054000 * Second) = ''2024-03-10 03:00:00''"
  "Format_datetime New_York_2024 (1730613599 * Second) = ''2024-11-03 01:59:59''"
  "Format_datetime New_York_2024 (1730613600 * Second) = ''2024-11-03 01:00:00''"
  by (simp_all add: civil_defs format_defs zone_defs)

section \<open>The partition key\<close>

text \<open>
  C6. For every instant \<open>t\<close>, the start of its partition is \<open>t\<close> truncated down to a
  minute boundary (never rounded up), the end is one minute later, and \<open>t\<close> lies in
  the half-open interval between them.
\<close>

theorem derive_interval_contains:
  "partition_start t \<le> t \<and> t < partition_stop t \<and>
   partition_stop t = partition_start t + Minute \<and>
   partition_start t mod Minute = 0"
proof -
  have "0 \<le> t mod 60000000000" "t mod 60000000000 < 60000000000" by simp_all
  then have "Truncate t Minute \<le> t \<and> t < Truncate t Minute + Minute"
    by (simp add: Truncate_Minute) (simp add: Minute_def Second_def)
  then show ?thesis
    using Truncate_Minute_aligned [of t] by (simp add: partition_start_def partition_stop_def Add_def)
qed

theorem derive_interval_contains_witness:
  "partition_start (1704110730 * Second) = 1704110700 * Second \<and>
   partition_stop (1704110730 * Second) = 1704110760 * Second \<and>
   partition_start (1704110730 * Second) \<le> 1704110730 * Second \<and>
   1704110730 * Second < partition_stop (1704110730 * Second)"
  using derive_interval_contains [of "1704110730 * Second"]
  by (simp add: truncate_defs Second_def Minute_def)




text \<open>
  C10 (as amended). For every instant \<open>t\<close> whose year, as the zone of the process
  writes it, lies in 0..9999, the partition name of \<open>t\<close> has the shape \<^verbatim>\<open>audit_logs_\<close>,
  eight digits, an underscore, four digits, and holds only letters, digits and
  underscores. This is the name in the statement of \<^verbatim>\<open>ensurePartition\<close> when \<open>t\<close> is the
  start of the minute it is called for, and the name in the statement of
  \<^verbatim>\<open>dropOldPartitions\<close> when \<open>t\<close> is the cutoff; the text of the latter then holds a
  single semicolon, its last character. Where the offset of the zone is a whole
  number of minutes and the same at \<open>t\<close> and at the start of its minute, the name of
  the truncated instant is the name of the instant, and the statement of
  \<^verbatim>\<open>ensurePartition\<close> for \<open>t\<close> carries the name of \<open>t\<close>.
\<close>

theorem ddl_name_shape:
  assumes "0 \<le> Year (locabs loc t)" "Year (locabs loc t) \<le> 9999"
  shows "name_shape (partition_name loc t) \<and> list_all ident_char (partition_name loc t) \<and>
         (\<forall>u. partition_start u = t \<longrightarrow>
            ensure_stmt loc u =
              CreatePartitionIfNotExists (partition_name loc t) (locabs loc t)
                (locabs loc (t + Minute))) \<and>
         (\<forall>now maxAge. cutoff_of now maxAge = t \<longrightarrow>
            drop_stmt loc now maxAge = DropTableIfExistsCascade (partition_name loc t)) \<and>
         (loc (partition_start t) = loc t \<and> loc t mod 60 = 0 \<longrightarrow>
            ensure_stmt loc t =
              CreatePartitionIfNotExists (partition_name loc t) (locabs loc (partition_start t))
                (locabs loc (partition_stop t))) \<and>
         sql_text (DropTableIfExistsCascade (partition_name loc t)) =
           ''DROP TABLE IF EXISTS '' @ partition_name loc t @ '' CASCADE;'' \<and>
         count_list (sql_text (DropTableIfExistsCascade (partition_name loc t))) CHR '';'' = 1"
proof -
  let ?c = "locabs loc t"
  let ?Y = "appendInt (Year ?c) 4" and ?M = "appendInt (Month ?c) 2" and ?D = "appendInt (Day ?c) 2"
  let ?H = "appendInt (Hour ?c) 2" and ?N = "appendInt (Minute_of ?c) 2"
  have len: "length ?Y = 4" "length ?M = 2" "length ?D = 2" "length ?H = 2" "length ?N = 2"
    using assms by (simp_all add: appendInt4_length field_lengths)
  have dig: "list_all is_digit ?Y" "list_all is_digit ?M" "list_all is_digit ?D"
    "list_all is_digit ?H" "list_all is_digit ?N"
    using assms by (simp_all add: appendInt4_digits field_digits)
  have nm: "partition_name loc t = ''audit_logs_'' @ ?Y @ ?M @ ?D @ ''_'' @ ?H @ ?N"
    by (simp add: partition_name_def Format_20060102_1504_def layout_20060102_1504_def)
  have shape: "name_shape (partition_name loc t)"
    unfolding name_shape_def nm using len dig by (simp add: nth_append)
  have lit: "list_all ident_char ''audit_logs_''"
    by (simp add: ident_char_def is_letter_def)
  have "\<And>cs. list_all is_digit cs \<Longrightarrow> list_all ident_char cs"
    by (simp add: list_all_iff ident_char_def)
  then have idc: "list_all ident_char (partition_name loc t)"
    unfolding nm using dig lit by (simp add: ident_char_def)
  have "\<not> ident_char CHR '';''" by (simp add: ident_char_def is_letter_def is_digit_def)
  then have "CHR '';'' \<notin> set (partition_name loc t)" using idc by (auto simp: list_all_iff)
  then have "count_list (partition_name loc t) CHR '';'' = 0" by (simp add: count_list_0_iff)
  then have cnt: "count_list (sql_text (DropTableIfExistsCascade (partition_name loc t))) CHR '';'' = 1"
    by (simp add: sql_text_def)
  have ens: "ensure_stmt loc u =
      CreatePartitionIfNotExists (partition_name loc t) (locabs loc t) (locabs loc (t + Minute))"
    if "partition_start u = t" for u
    using that by (simp add: ensure_stmt_def partition_stop_def Add_def)
  have drp: "drop_stmt loc now maxAge = DropTableIfExistsCascade (partition_name loc t)"
    if "cutoff_of now maxAge = t" for now maxAge
    using that by (simp add: drop_stmt_def)
  have own: "ensure_stmt loc t =
      CreatePartitionIfNotExists (partition_name loc t) (locabs loc (partition_start t))
        (locabs loc (partition_stop t))"
    if "loc (partition_start t) = loc t \<and> loc t mod 60 = 0"
    using that partition_name_start [of loc t] by (simp add: ensure_stmt_def)
  have dtext: "sql_text (DropTableIfExistsCascade (partition_name loc t)) =
           ''DROP TABLE IF EXISTS '' @ partition_name loc t @ '' CASCADE;''"
    by (simp add: sql_text_def)
  show ?thesis
    using shape idc ens drp own dtext cnt by (intro conjI allI impI)
qed

theorem ddl_name_shape_witness:
  "0 \<le> Year (locabs Kolkata (1704110730 * Second)) \<and>
   Year (locabs Kolkata (1704110730 * Second)) \<le> 9999 \<and>
   partition_name Kolkata (1704110730 * Second) = ''audit_logs_20240101_1735'' \<and>
   name_shape (partition_name Kolkata (1704110730 * Second)) \<and>
   ensure_stmt Kolkata (1704110730 * Second) =
     CreatePartitionIfNotExists ''audit_logs_20240101_1735''
       (1704130500 * Second) (1704130560 * Second) \<and>
   sql_text (DropTableIfExistsCascade (partition_name Kolkata (1704110730 * Second))) =
     ''DROP TABLE IF EXISTS audit_logs_20240101_1735 CASCADE;''"
  using ddl_name_shape [of Kolkata "1704110730 * Second"]
  by (simp add: civil_defs format_defs zone_defs truncate_defs)

text \<open>
  The claim as stated fails outside these years: in the year 10000 the name has nine
  digits before the underscore, and in the year before year 0 it holds a minus sign.
\<close>

theorem ddl_name_shape_counterexample:
  "partition_name UTC (253402300800 * Second) = ''audit_logs_100000101_0000'' \<and>
   \<not> name_shape (partition_name UTC (253402300800 * Second)) \<and>
   partition_name UTC (- 62167219260 * Second) = ''audit_logs_-00011231_2359'' \<and>
   \<not> name_shape (partition_name UTC (- 62167219260 * Second)) \<and>
   \<not> list_all ident_char (partition_name UTC (- 62167219260 * Second))"
proof -
  have a: "partition_name UTC (253402300800 * Second) = ''audit_logs_100000101_0000''"
    by (simp add: civil_defs format_defs zone_defs)
  have b: "partition_name UTC (- 62167219260 * Second) = ''audit_logs_-00011231_2359''"
    by (simp add: civil_defs format_defs zone_defs)
  have c: "\<not> name_shape ''audit_logs_100000101_0000''" "\<not> name_shape ''audit_logs_-00011231_2359''"
    by (simp_all add: name_shape_def)
  have d: "\<not> list_all ident_char ''audit_logs_-00011231_2359''"
    by (simp add: ident_char_def is_letter_def is_digit_def)
  show ?thesis using c d by (simp only: a b) simp
qed

section \<open>The partition store\<close>

lemma exec_create_partition:
  "exec_sql db (CreatePartitionIfNotExists name lo hi) = Inr (nt, db') \<Longrightarrow>
     has_table db' name \<and>
     ((nt = Skipped \<and> db' = db) \<or>
      (nt = Done \<and> db' = db\<lparr>partitions := partitions db @
         [(name, \<lparr>bound_from = lo, bound_to = hi, part_rows = []\<rparr>)]\<rparr>))"
  by (auto simp: exec_sql_def has_table_def split: if_splits)

lemma exec_create_partition_again:
  "has_table db name \<Longrightarrow> exec_sql db (CreatePartitionIfNotExists name lo hi) = Inr (Skipped, db)"
  by (simp add: exec_sql_def)

lemma exec_drop_partition:
  assumes "name \<noteq> ''audit_logs''"
  shows "exec_sql db (DropTableIfExistsCascade name) =
           (if name \<in> fst ` set (partitions db)
            then Inr (Done, db\<lparr>partitions := filter (\<lambda>(n, p). n \<noteq> name) (partitions db)\<rparr>)
            else Inr (Skipped, db))"
  using assms by (simp add: exec_sql_def)

text \<open>
  C7. \<^verbatim>\<open>ensurePartition\<close> is idempotent: after a call that returned no error, a second
  call for the same instant (with no failure of the connection) returns no error,
  leaves the database as the first call left it and prints the same line; for the
  database its statement is the already-exists case, a notice and not an error. This
  holds in every zone of the process.
\<close>

theorem ensurePartition_idempotent:
  assumes "ensurePartition loc fault db t = (None, db1, out1)"
  shows "ensurePartition loc None db1 t = (None, db1, out1) \<and>
         exec_sql db1 (ensure_stmt loc t) = Inr (Skipped, db1)"
proof -
  from assms obtain nt where e: "exec_sql db (ensure_stmt loc t) = Inr (nt, db1)"
    and o: "out1 = [Partition_ensured (partition_name loc (partition_start t))]"
    by (auto simp: ensurePartition_def db_Exec_def split: option.splits sum.splits)
  from e have "has_table db1 (partition_name loc (partition_start t))"
    unfolding ensure_stmt_def by (rule exec_create_partition [THEN conjunct1])
  then have "exec_sql db1 (ensure_stmt loc t) = Inr (Skipped, db1)"
    unfolding ensure_stmt_def by (rule exec_create_partition_again)
  then show ?thesis using o by (simp add: ensurePartition_def db_Exec_def)
qed

text \<open>
  In Kolkata at 12:05:30 UTC, which is 17:35:30 there: the partition is named after
  17:35 and its bounds are 17:35:00 and 17:36:00.
\<close>

theorem ensurePartition_idempotent_witness:
  "ensurePartition Kolkata None \<lparr>parent_exists = True, partitions = []\<rparr> (1704110730 * Second) =
     (None,
      \<lparr>parent_exists = True,
       partitions = [(''audit_logs_20240101_1735'',
         \<lparr>bound_from = 1704130500 * Second, bound_to = 1704130560 * Second, part_rows = []\<rparr>)]\<rparr>,
      [Partition_ensured ''audit_logs_20240101_1735'']) \<and>
   ensurePartition Kolkata None
     \<lparr>parent_exists = True,
      partitions = [(''audit_logs_20240101_1735'',
        \<lparr>bound_from = 1704130500 * Second, bound_to = 1704130560 * Second, part_rows = []\<rparr>)]\<rparr>
     (1704110730 * Second) =
     (None,
      \<lparr>parent_exists = True,
       partitions = [(''audit_logs_20240101_1735'',
         \<lparr>bound_from = 1704130500 * Second, bound_to = 1704130560 * Second, part_rows = []\<rparr>)]\<rparr>,
      [Partition_ensured ''audit_logs_20240101_1735'']) \<and>
   Format_datetime Kolkata (partition_start (1704110730 * Second)) = ''2024-01-01 17:35:00'' \<and>
   Format_datetime Kolkata (partition_stop (1704110730 * Second)) = ''2024-01-01 17:36:00''"
proof -
  have s: "partition_start (1704110730 * Second) = 1704110700 * Second"
    "partition_stop (1704110730 * Second) = 1704110760 * Second"
    by (simp_all add: truncate_defs Second_def Minute_def)
  have n: "partition_name Kolkata (1704110700 * Second) = ''audit_logs_20240101_1735''"
    by (simp add: civil_defs format_defs zone_defs)
  have l: "locabs Kolkata (1704110700 * Second) = 1704130500 * Second"
    "locabs Kolkata (1704110760 * Second) = 1704130560 * Second"
    by (simp_all add: zone_defs Second_def)
  have f: "Format_datetime Kolkata (1704110700 * Second) = ''2024-01-01 17:35:00''"
    "Format_datetime Kolkata (1704110760 * Second) = ''2024-01-01 17:36:00''"
    by (simp_all add: civil_defs format_defs zone_defs)
  have sp: "\<not> Second \<le> 0" by (simp add: Second_def)
  have first: "ensurePartition Kolkata None \<lparr>parent_exists = True, partitions = []\<rparr>
       (1704110730 * Second) =
     (None,
      \<lparr>parent_exists = True,
       partitions = [(''audit_logs_20240101_1735'',
         \<lparr>bound_from = 1704130500 * Second, bound_to = 1704130560 * Second, part_rows = []\<rparr>)]\<rparr>,
      [Partition_ensured ''audit_logs_20240101_1735''])"
    using sp by (simp add: ensurePartition_def db_Exec_def ensure_stmt_def n s l exec_sql_def has_table_def)
  from ensurePartition_idempotent [OF first] first f show ?thesis by (simp add: s)
qed

text \<open>The cutoff, when the age in nanoseconds fits the 64-bit duration.\<close>

lemma cutoff_of_in_range:
  assumes "- 9223372036 \<le> sint maxAge" "sint maxAge \<le> 9223372036"
  shows "cutoff_of now maxAge = now - sint maxAge * Second"
proof -
  let ?k = "- sint maxAge * 1000000000"
  have "(- maxAge) * 1000000000 = (word_of_int ?k :: 64 word)"
    by simp
  then have "sint ((- maxAge) * 1000000000) = signed_take_bit 63 ?k"
    by (simp only: signed_of_int) simp
  also have "\<dots> = ?k"
    by (rule signed_take_bit_int_eq_self) (use assms in simp_all)
  finally show ?thesis by (simp add: cutoff_of_def Add_def Second_def)
qed

text \<open>
  C4 (as amended). For a maximum age between -9223372036 and 9223372036 seconds (its
  nanoseconds fit the 64-bit duration), a sweep at the time \<open>now\<close> sends one statement,
  the drop of the partition that has the name of the cutoff \<open>now - maxAge\<close> in the zone
  of the process; the database is left as it was or without the partition of that
  name, and every partition of another name is still there with its rows. The
  partition that \<^verbatim>\<open>ensurePartition\<close> names for another minute than the one of the cutoff,
  the earlier ones among them, is of another name, and so is kept, when at the cutoff
  the offset of the zone is a whole number of minutes and between the start of that
  minute and the cutoff the clock of the zone is not set back.
\<close>

theorem dropOldPartitions_single_target:
  assumes "- 9223372036 \<le> sint maxAge" "sint maxAge \<le> 9223372036"
    and "dropOldPartitions loc fault db now maxAge = (db', out)"
  shows "drop_stmt loc now maxAge =
           DropTableIfExistsCascade (partition_name loc (now - sint maxAge * Second)) \<and>
         parent_exists db' = parent_exists db \<and>
         (partitions db' = partitions db \<or>
          partitions db' =
            filter (\<lambda>(n, p). n \<noteq> partition_name loc (now - sint maxAge * Second)) (partitions db)) \<and>
         (\<forall>n p. n \<noteq> partition_name loc (now - sint maxAge * Second) \<longrightarrow>
            (n, p) \<in> set (partitions db) \<longrightarrow> (n, p) \<in> set (partitions db')) \<and>
         (\<forall>s p. partition_start s \<noteq> partition_start (now - sint maxAge * Second) \<longrightarrow>
            loc (now - sint maxAge * Second) mod 60 = 0 \<longrightarrow>
            not_set_back loc (partition_start s) (now - sint maxAge * Second) \<longrightarrow>
            (partition_name loc (partition_start s), p) \<in> set (partitions db) \<longrightarrow>
            (partition_name loc (partition_start s), p) \<in> set (partitions db'))"
proof -
  let ?c = "now - sint maxAge * Second"
  let ?target = "partition_name loc ?c"
  have c: "cutoff_of now maxAge = ?c" using assms(1,2) by (rule cutoff_of_in_range)
  have st: "drop_stmt loc now maxAge = DropTableIfExistsCascade ?target"
    by (simp add: drop_stmt_def c)
  have ex: "exec_sql db (DropTableIfExistsCascade ?target) =
           (if ?target \<in> fst ` set (partitions db)
            then Inr (Done, db\<lparr>partitions := filter (\<lambda>(n, p). n \<noteq> ?target) (partitions db)\<rparr>)
            else Inr (Skipped, db))"
    by (rule exec_drop_partition) (rule partition_name_not_parent)
  have cases: "db' = db \<or> db' = db\<lparr>partitions := filter (\<lambda>(n, p). n \<noteq> ?target) (partitions db)\<rparr>"
    using assms(3) unfolding dropOldPartitions_def db_Exec_def st ex
    by (auto split: option.splits if_splits)
  have kept: "(n, p) \<in> set (partitions db')"
    if "n \<noteq> ?target" "(n, p) \<in> set (partitions db)" for n p
    using cases that by auto
  have other: "partition_name loc (partition_start s) \<noteq> ?target"
    if "partition_start s \<noteq> partition_start ?c" "loc ?c mod 60 = 0"
      "not_set_back loc (partition_start s) ?c" for s
  proof (rule partition_name_other_minute)
    show "partition_start s mod Minute = 0"
      by (simp add: partition_start_def Truncate_Minute_aligned)
    show "partition_start s \<noteq> Truncate ?c Minute" using that(1) by (simp add: partition_start_def)
    show "loc ?c mod 60 = 0" by (rule that(2))
    show "not_set_back loc (partition_start s) ?c" by (rule that(3))
  qed
  show ?thesis
  proof (intro conjI allI impI)
    show "drop_stmt loc now maxAge = DropTableIfExistsCascade ?target" by (rule st)
    show "parent_exists db' = parent_exists db" using cases by auto
    show "partitions db' = partitions db \<or>
          partitions db' = filter (\<lambda>(n, p). n \<noteq> ?target) (partitions db)"
      using cases by auto
  next
    fix n p
    assume "n \<noteq> ?target" "(n, p) \<in> set (partitions db)"
    then show "(n, p) \<in> set (partitions db')" by (rule kept)
  next
    fix s p
    assume "partition_start s \<noteq> partition_start ?c" "loc ?c mod 60 = 0"
      "not_set_back loc (partition_start s) ?c"
      "(partition_name loc (partition_start s), p) \<in> set (partitions db)"
    then show "(partition_name loc (partition_start s), p) \<in> set (partitions db')"
      using other [of s] kept by simp
  qed
qed

text \<open>
  The scenario of the claim in Kolkata: maximum age 30 s, the sweep at 12:10:00 UTC,
  which is 17:40:00 there. The cutoff is 17:39:30, the partition of 17:39 is dropped
  and the one of 17:38 is kept.
\<close>

theorem dropOldPartitions_single_target_witness:
  "- 9223372036 \<le> sint (30 :: 64 word) \<and> sint (30 :: 64 word) \<le> 9223372036 \<and>
   drop_stmt Kolkata (1704111000 * Second) 30 =
     DropTableIfExistsCascade ''audit_logs_20240101_1739'' \<and>
   partition_name Kolkata (partition_start (1704110900 * Second)) = ''audit_logs_20240101_1738'' \<and>
   partition_start (1704110900 * Second) \<noteq>
     partition_start (1704111000 * Second - sint (30 :: 64 word) * Second) \<and>
   Kolkata (1704111000 * Second - sint (30 :: 64 word) * Second) mod 60 = 0 \<and>
   not_set_back Kolkata (partition_start (1704110900 * Second))
     (1704111000 * Second - sint (30 :: 64 word) * Second) \<and>
   dropOldPartitions Kolkata None
     \<lparr>parent_exists = True,
      partitions =
        [(''audit_logs_20240101_1738'',
          \<lparr>bound_from = 1704130680 * Second, bound_to = 1704130740 * Second,
           part_rows = [\<lparr>row_method = ''GET'', created_at = 1704130700 * Second\<rparr>]\<rparr>),
         (''audit_logs_20240101_1739'',
          \<lparr>bound_from = 1704130740 * Second, bound_to = 1704130800 * Second,
           part_rows = [\<lparr>row_method = ''PUT'', created_at = 1704130750 * Second\<rparr>]\<rparr>)]\<rparr>
     (1704111000 * Second) 30 =
     (\<lparr>parent_exists = True,
       partitions =
        [(''audit_logs_20240101_1738'',
          \<lparr>bound_from = 1704130680 * Second, bound_to = 1704130740 * Second,
           part_rows = [\<lparr>row_method = ''GET'', created_at = 1704130700 * Second\<rparr>]\<rparr>)]\<rparr>,
      [Dropped_old_partition ''audit_logs_20240101_1739''])"
proof -
  have r: "- 9223372036 \<le> sint (30 :: 64 word)" "sint (30 :: 64 word) \<le> 9223372036" by simp_all
  have c: "cutoff_of (1704111000 * Second) 30 = 1704110970 * Second"
    by (simp add: cutoff_of_in_range)
  have n: "partition_name Kolkata (1704110970 * Second) = ''audit_logs_20240101_1739''"
    by (simp add: civil_defs format_defs zone_defs)
  have s: "partition_start (1704110900 * Second) = 1704110880 * Second"
    "partition_start (1704110970 * Second) = 1704110940 * Second"
    by (simp_all add: truncate_defs Second_def Minute_def)
  have m: "partition_name Kolkata (1704110880 * Second) = ''audit_logs_20240101_1738''"
    by (simp add: civil_defs format_defs zone_defs)
  have z: "Kolkata (1704111000 * Second - sint (30 :: 64 word) * Second) mod 60 = 0"
    "not_set_back Kolkata (1704110880 * Second)
       (1704111000 * Second - sint (30 :: 64 word) * Second)"
    by (simp_all add: zone_defs)
  have d: "(1704110880 * Second \<noteq> 1704110940 * Second)" by (simp add: Second_def)
  have run: "dropOldPartitions Kolkata None
     \<lparr>parent_exists = True,
      partitions =
        [(''audit_logs_20240101_1738'',
          \<lparr>bound_from = 1704130680 * Second, bound_to = 1704130740 * Second,
           part_rows = [\<lparr>row_method = ''GET'', created_at = 1704130700 * Second\<rparr>]\<rparr>),
         (''audit_logs_20240101_1739'',
          \<lparr>bound_from = 1704130740 * Second, bound_to = 1704130800 * Second,
           part_rows = [\<lparr>row_method = ''PUT'', created_at = 1704130750 * Second\<rparr>]\<rparr>)]\<rparr>
     (1704111000 * Second) 30 =
     (\<lparr>parent_exists = True,
       partitions =
        [(''audit_logs_20240101_1738'',
          \<lparr>bound_from = 1704130680 * Second, bound_to = 1704130740 * Second,
           part_rows = [\<lparr>row_method = ''GET'', created_at = 1704130700 * Second\<rparr>]\<rparr>)]\<rparr>,
      [Dropped_old_partition ''audit_logs_20240101_1739''])"
    by (simp add: dropOldPartitions_def db_Exec_def drop_stmt_def c n exec_sql_def)
  from dropOldPartitions_single_target [OF r run] r run z d show ?thesis
    by (simp add: drop_stmt_def c n s m)
qed

text \<open>
  The claim as stated fails in two ways. For a maximum age whose nanoseconds overflow
  the 64-bit duration: with 9223372037 seconds the product wraps, and in UTC the sweep
  of 2024-01-01 12:10:00 names a partition of the year 2316, not the one of
  \<open>now - maxAge\<close> (1731). And where the clock is set back, a partition of an earlier
  minute is dropped: in New York on 2024-11-03 the partition made at 05:30:10 UTC
  (01:30:10 there) is named after 01:30; the sweep of 06:31:00 UTC with the maximum
  age 30 s has the cutoff 06:30:30 UTC, which after the change of the clock is
  01:30:30 there, and it drops the partition made an hour before.
\<close>

theorem dropOldPartitions_cutoff_counterexample:
  "drop_stmt UTC (1704111000 * Second) 9223372037 =
     DropTableIfExistsCascade ''audit_logs_23160412_1157'' \<and>
   sint (9223372037 :: 64 word) = 9223372037 \<and>
   partition_name UTC (1704111000 * Second - sint (9223372037 :: 64 word) * Second) =
     ''audit_logs_17310922_1222'' \<and>
   partition_start (1730611810 * Second) = 1730611800 * Second \<and>
   partition_start (cutoff_of (1730615460 * Second) 30) = 1730615400 * Second \<and>
   ensurePartition New_York_2024 None \<lparr>parent_exists = True, partitions = []\<rparr>
     (1730611810 * Second) =
     (None,
      \<lparr>parent_exists = True,
       partitions = [(''audit_logs_20241103_0130'',
         \<lparr>bound_from = 1730597400 * Second, bound_to = 1730597460 * Second, part_rows = []\<rparr>)]\<rparr>,
      [Partition_ensured ''audit_logs_20241103_0130'']) \<and>
   dropOldPartitions New_York_2024 None
     \<lparr>parent_exists = True,
      partitions = [(''audit_logs_20241103_0130'',
        \<lparr>bound_from = 1730597400 * Second, bound_to = 1730597460 * Second,
         part_rows = [\<lparr>row_method = ''GET'', created_at = 1730597410 * Second\<rparr>]\<rparr>)]\<rparr>
     (1730615460 * Second) 30 =
     (\<lparr>parent_exists = True, partitions = []\<rparr>,
      [Dropped_old_partition ''audit_logs_20241103_0130''])"
proof -
  have c: "cutoff_of (1704111000 * Second) 9223372037 = 10927483036709551616"
    by (simp add: cutoff_of_def Add_def Second_def)
  have a: "partition_name UTC 10927483036709551616 = ''audit_logs_23160412_1157''"
    by (simp add: civil_defs format_defs zone_defs)
  have s: "sint (9223372037 :: 64 word) = 9223372037" by simp
  have b: "partition_name UTC (1704111000 * Second - 9223372037 * Second) = ''audit_logs_17310922_1222''"
    by (simp add: civil_defs format_defs zone_defs)
  have over: "drop_stmt UTC (1704111000 * Second) 9223372037 =
     DropTableIfExistsCascade ''audit_logs_23160412_1157'' \<and>
   sint (9223372037 :: 64 word) = 9223372037 \<and>
   partition_name UTC (1704111000 * Second - sint (9223372037 :: 64 word) * Second) =
     ''audit_logs_17310922_1222''"
    using b by (simp add: drop_stmt_def c a s)
  have c2: "cutoff_of (1730615460 * Second) 30 = 1730615430 * Second"
    by (simp add: cutoff_of_in_range)
  have st: "partition_start (1730611810 * Second) = 1730611800 * Second"
    "partition_stop (1730611810 * Second) = 1730611860 * Second"
    "partition_start (1730615430 * Second) = 1730615400 * Second"
    by (simp_all add: truncate_defs Second_def Minute_def)
  have n1: "partition_name New_York_2024 (1730611800 * Second) = ''audit_logs_20241103_0130''"
    by (simp add: civil_defs format_defs zone_defs)
  have n2: "partition_name New_York_2024 (1730615430 * Second) = ''audit_logs_20241103_0130''"
    by (simp add: civil_defs format_defs zone_defs)
  have l: "locabs New_York_2024 (1730611800 * Second) = 1730597400 * Second"
    "locabs New_York_2024 (1730611860 * Second) = 1730597460 * Second"
    by (simp_all add: zone_defs Second_def)
  have sp: "\<not> Second \<le> 0" by (simp add: Second_def)
  have ens: "ensurePartition New_York_2024 None \<lparr>parent_exists = True, partitions = []\<rparr>
     (1730611810 * Second) =
     (None,
      \<lparr>parent_exists = True,
       partitions = [(''audit_logs_20241103_0130'',
         \<lparr>bound_from = 1730597400 * Second, bound_to = 1730597460 * Second, part_rows = []\<rparr>)]\<rparr>,
      [Partition_ensured ''audit_logs_20241103_0130''])"
    using sp by (simp add: ensurePartition_def db_Exec_def ensure_stmt_def n1 st l exec_sql_def has_table_def)
  have drp: "dropOldPartitions New_York_2024 None
     \<lparr>parent_exists = True,
      partitions = [(''audit_logs_20241103_0130'',
        \<lparr>bound_from = 1730597400 * Second, bound_to = 1730597460 * Second,
         part_rows = [\<lparr>row_method = ''GET'', created_at = 1730597410 * Second\<rparr>]\<rparr>)]\<rparr>
     (1730615460 * Second) 30 =
     (\<lparr>parent_exists = True, partitions = []\<rparr>,
      [Dropped_old_partition ''audit_logs_20241103_0130''])"
    by (simp add: dropOldPartitions_def db_Exec_def drop_stmt_def c2 n2 exec_sql_def)
  show ?thesis using over ens drp by (simp add: c2 st)
qed

text \<open>
  C8 (the code against the claim). A failure of the statement of \<^verbatim>\<open>ensurePartition\<close>
  is returned to the caller. A failure of the statement of \<^verbatim>\<open>dropOldPartitions\<close> is
  not: the function has no result and prints nothing, and the cleanup routine goes on
  with nothing printed either. (That the partition is absent is no failure: the
  statement succeeds and the function prints its line.)
\<close>

theorem dropOldPartitions_swallows_error:
  "ensurePartition loc (Some PermissionDenied) db t = (Some PermissionDenied, db, []) \<and>
   dropOldPartitions loc (Some PermissionDenied) db now maxAge = (db, []) \<and>
   cleanup_step loc maxAge (s\<lparr>sweeping := True\<rparr>) (Retire_returns (Some PermissionDenied)) =
     Some (s\<lparr>isRunning := False, sweeping := False\<rparr>) \<and>
   dropOldPartitions loc None \<lparr>parent_exists = True, partitions = []\<rparr> now maxAge =
     (\<lparr>parent_exists = True, partitions = []\<rparr>,
      [Dropped_old_partition (partition_name loc (cutoff_of now maxAge))])"
  by (simp add: ensurePartition_def dropOldPartitions_def db_Exec_def drop_stmt_def
      exec_sql_def partition_name_not_parent)

section \<open>The batch writer\<close>










section \<open>Startup and configuration\<close>

lemma Atoi_empty: "Atoi [] = None"
  by (simp add: Atoi_def)

lemma Getenv_unset: "env key = None \<Longrightarrow> Getenv env key = []"
  by (simp add: Getenv_def)

lemma exec_sql_wf: "wf_db db \<Longrightarrow> exec_sql db q = Inr (nt, db') \<Longrightarrow> wf_db db'"
  by (cases q) (auto simp: exec_sql_def wf_db_def has_table_def split: if_splits)

lemma resetTable_ok:
  "wf_db db \<Longrightarrow> resetTable fault db = (None, db1, out1) \<Longrightarrow>
     parent_exists db1 = False \<and> partitions db1 = [] \<and> out1 = [Dropped_old_table]"
  by (auto simp: resetTable_def db_Exec_def exec_sql_def wf_db_def split: option.splits if_splits)

lemma createRootTable_ok:
  "createRootTable fault db1 = (None, db2, out2) \<Longrightarrow>
     parent_exists db2 = True \<and> partitions db2 = partitions db1 \<and> out2 = [Created_parent_table]"
  by (auto simp: createRootTable_def db_Exec_def exec_sql_def split: option.splits if_splits)

text \<open>
  C2 (as amended). The startup of \<^verbatim>\<open>main.go\<close> does not keep a table it finds: when it
  gets as far as starting the periodic tasks, it has dropped \<^verbatim>\<open>audit_logs\<close> with every
  partition and row and created the parent anew, so the database holds the empty
  parent whatever (well-formed) it held before. The startup of the cleaner-only
  program sends no statement and leaves the database as it is.
\<close>

theorem main_startup_resets_table:
  "(wf_db db \<and> main_startup pf env mf db = (Inr cfg, db', out) \<longrightarrow>
      db' = \<lparr>parent_exists = True, partitions = []\<rparr> \<and> all_rows db' = [] \<and>
      out = [Dropped_old_table, Created_parent_table]) \<and>
   (cleaner_startup pf env ping db = (r, db2, out2) \<longrightarrow> db2 = db \<and> out2 = [])"
proof (intro conjI impI)
  assume "cleaner_startup pf env ping db = (r, db2, out2)"
  then show "db2 = db" "out2 = []"
    by (auto simp: cleaner_startup_def split: sum.splits option.splits)
next
  assume "wf_db db \<and> main_startup pf env mf db = (Inr cfg, db', out)"
  then have w: "wf_db db" and m: "main_startup pf env mf db = (Inr cfg, db', out)" by simp_all
  from m obtain db1 out1 out2 where
    r: "resetTable (f_reset mf) db = (None, db1, out1)" and
    c: "createRootTable (f_create mf) db1 = (None, db', out2)" and o: "out = out1 @ out2"
    by (auto simp: main_startup_def split: sum.splits option.splits prod.splits)
  from resetTable_ok [OF w r] createRootTable_ok [OF c]
  have f: "parent_exists db' = True" "partitions db' = []"
    and o': "out = [Dropped_old_table, Created_parent_table]"
    using o by simp_all
  from f show d: "db' = \<lparr>parent_exists = True, partitions = []\<rparr>" by (cases db') simp
  show "all_rows db' = []" using f by (simp add: all_rows_def)
  show "out = [Dropped_old_table, Created_parent_table]" by (rule o')
qed

lemma example_env:
  "Load ParseFloat_example
     [''CLEANUP_INTERVAL_SECONDS'' \<mapsto> ''60'', ''MAX_LOG_AGE_SECONDS'' \<mapsto> ''30'',
      ''POSTGRES_PORT'' \<mapsto> ''5432''] =
   Inr \<lparr>Database = \<lparr>Host = ''localhost'', Port = 5432, User = ''user'', Password = ''password'',
                     DBName = ''auditlogs'', SSLMode = ''disable''\<rparr>,
        Timing = \<lparr>CleanupIntervalSeconds = 60, MaxLogAgeSeconds = 30\<rparr>\<rparr>"
  by (simp add: Load_def getEnvAsFloat_def getEnvAsInt_def getEnv_def Getenv_def
      ParseFloat_example_def Atoi_def dec_val_def digit_val_def is_digit_def)

theorem main_startup_resets_table_witness:
  "wf_db \<lparr>parent_exists = True,
      partitions = [(''audit_logs_20240101_1208'',
        \<lparr>bound_from = 1704110880 * Second, bound_to = 1704110940 * Second,
         part_rows = [\<lparr>row_method = ''PUT'', created_at = 1704110900 * Second\<rparr>,
                      \<lparr>row_method = ''POST'', created_at = 1704110900 * Second\<rparr>]\<rparr>)]\<rparr> \<and>
   main_startup ParseFloat_example
     [''CLEANUP_INTERVAL_SECONDS'' \<mapsto> ''60'', ''MAX_LOG_AGE_SECONDS'' \<mapsto> ''30'',
      ''POSTGRES_PORT'' \<mapsto> ''5432'']
     \<lparr>f_ping = None, f_reset = None, f_create = None\<rparr>
     \<lparr>parent_exists = True,
      partitions = [(''audit_logs_20240101_1208'',
        \<lparr>bound_from = 1704110880 * Second, bound_to = 1704110940 * Second,
         part_rows = [\<lparr>row_method = ''PUT'', created_at = 1704110900 * Second\<rparr>,
                      \<lparr>row_method = ''POST'', created_at = 1704110900 * Second\<rparr>]\<rparr>)]\<rparr> =
   (Inr \<lparr>Database = \<lparr>Host = ''localhost'', Port = 5432, User = ''user'', Password = ''password'',
                      DBName = ''auditlogs'', SSLMode = ''disable''\<rparr>,
         Timing = \<lparr>CleanupIntervalSeconds = 60, MaxLogAgeSeconds = 30\<rparr>\<rparr>,
    \<lparr>parent_exists = True, partitions = []\<rparr>,
    [Dropped_old_table, Created_parent_table])"
proof -
  let ?db = "\<lparr>parent_exists = True,
      partitions = [(''audit_logs_20240101_1208'',
        \<lparr>bound_from = 1704110880 * Second, bound_to = 1704110940 * Second,
         part_rows = [\<lparr>row_method = ''PUT'', created_at = 1704110900 * Second\<rparr>,
                      \<lparr>row_method = ''POST'', created_at = 1704110900 * Second\<rparr>]\<rparr>)]\<rparr>"
  have run: "main_startup ParseFloat_example
     [''CLEANUP_INTERVAL_SECONDS'' \<mapsto> ''60'', ''MAX_LOG_AGE_SECONDS'' \<mapsto> ''30'',
      ''POSTGRES_PORT'' \<mapsto> ''5432'']
     \<lparr>f_ping = None, f_reset = None, f_create = None\<rparr> ?db =
   (Inr \<lparr>Database = \<lparr>Host = ''localhost'', Port = 5432, User = ''user'', Password = ''password'',
                      DBName = ''auditlogs'', SSLMode = ''disable''\<rparr>,
         Timing = \<lparr>CleanupIntervalSeconds = 60, MaxLogAgeSeconds = 30\<rparr>\<rparr>,
    \<lparr>parent_exists = True, partitions = []\<rparr>,
    [Dropped_old_table, Created_parent_table])"
    by (simp add: main_startup_def example_env resetTable_def createRootTable_def db_Exec_def
        exec_sql_def has_table_def)
  have w: "wf_db ?db" by (simp add: wf_db_def)
  from main_startup_resets_table [THEN conjunct1, rule_format, OF conjI [OF w run]] w run
  show ?thesis by simp
qed

text \<open>
  The claim as stated fails: started on a database that holds the parent and a
  partition with a row, \<^verbatim>\<open>main\<close> leaves the empty parent; the row is gone.
\<close>

theorem main_startup_keeps_table_counterexample:
  "all_rows \<lparr>parent_exists = True,
      partitions = [(''audit_logs_20240101_1205'',
        \<lparr>bound_from = 1704110700 * Second, bound_to = 1704110760 * Second,
         part_rows = [\<lparr>row_method = ''GET'', created_at = 1704110730 * Second\<rparr>]\<rparr>)]\<rparr> =
     [\<lparr>row_method = ''GET'', created_at = 1704110730 * Second\<rparr>] \<and>
   resetTable None \<lparr>parent_exists = True,
      partitions = [(''audit_logs_20240101_1205'',
        \<lparr>bound_from = 1704110700 * Second, bound_to = 1704110760 * Second,
         part_rows = [\<lparr>row_method = ''GET'', created_at = 1704110730 * Second\<rparr>]\<rparr>)]\<rparr> =
     (None, \<lparr>parent_exists = False, partitions = []\<rparr>, [Dropped_old_table]) \<and>
   main_startup ParseFloat_example
     [''CLEANUP_INTERVAL_SECONDS'' \<mapsto> ''60'', ''MAX_LOG_AGE_SECONDS'' \<mapsto> ''30'',
      ''POSTGRES_PORT'' \<mapsto> ''5432'']
     \<lparr>f_ping = None, f_reset = None, f_create = None\<rparr>
     \<lparr>parent_exists = True,
      partitions = [(''audit_logs_20240101_1205'',
        \<lparr>bound_from = 1704110700 * Second, bound_to = 1704110760 * Second,
         part_rows = [\<lparr>row_method = ''GET'', created_at = 1704110730 * Second\<rparr>]\<rparr>)]\<rparr> =
   (Inr \<lparr>Database = \<lparr>Host = ''localhost'', Port = 5432, User = ''user'', Password = ''password'',
                      DBName = ''auditlogs'', SSLMode = ''disable''\<rparr>,
         Timing = \<lparr>CleanupIntervalSeconds = 60, MaxLogAgeSeconds = 30\<rparr>\<rparr>,
    \<lparr>parent_exists = True, partitions = []\<rparr>,
    [Dropped_old_table, Created_parent_table])"
  by (simp add: main_startup_def example_env resetTable_def createRootTable_def db_Exec_def
      exec_sql_def has_table_def all_rows_def)

text \<open>
  C5 (as amended). \<^verbatim>\<open>config.Load\<close> has no defaults for the timing values. If the cleanup
  interval does not parse as a float, or the maximum age or the port does not parse as
  an integer, \<open>Load\<close> returns an error and \<^verbatim>\<open>main\<close> ends the process with \<^verbatim>\<open>log.Fatal\<close>. If
  all three parse, the values are taken as they are, whatever their sign. A variable
  that is not set reads as the empty string, which \<^verbatim>\<open>strconv.Atoi\<close> does not parse.
\<close>

theorem Load_invalid_is_fatal:
  "(pf (Getenv env ''CLEANUP_INTERVAL_SECONDS'') = None \<or>
    Atoi (Getenv env ''MAX_LOG_AGE_SECONDS'') = None \<or>
    Atoi (Getenv env ''POSTGRES_PORT'') = None \<longrightarrow>
      (\<exists>err. Load pf env = Inl err \<and>
         main_startup pf env mf db = (Inl (Error_loading_configuration err), db, []))) \<and>
   (pf (Getenv env ''CLEANUP_INTERVAL_SECONDS'') = Some c \<and>
    Atoi (Getenv env ''MAX_LOG_AGE_SECONDS'') = Some a \<and>
    Atoi (Getenv env ''POSTGRES_PORT'') = Some p \<longrightarrow>
      (\<exists>cfg. Load pf env = Inr cfg \<and> CleanupIntervalSeconds (Timing cfg) = c \<and>
         MaxLogAgeSeconds (Timing cfg) = a \<and> Port (Database cfg) = p)) \<and>
   (env key = None \<longrightarrow> Getenv env key = [] \<and> Atoi (Getenv env key) = None)"
  by (auto simp: Load_def getEnvAsFloat_def getEnvAsInt_def main_startup_def Atoi_empty
      Getenv_unset split: option.splits)

theorem Load_invalid_is_fatal_witness:
  "Load ParseFloat_example
     [''CLEANUP_INTERVAL_SECONDS'' \<mapsto> ''60'', ''POSTGRES_PORT'' \<mapsto> ''5432''] =
     Inl (''invalid MAX_LOG_AGE_SECONDS: '' @
          ''environment variable MAX_LOG_AGE_SECONDS is not a valid int'') \<and>
   main_startup ParseFloat_example
     [''CLEANUP_INTERVAL_SECONDS'' \<mapsto> ''60'', ''POSTGRES_PORT'' \<mapsto> ''5432'']
     \<lparr>f_ping = None, f_reset = None, f_create = None\<rparr>
     \<lparr>parent_exists = True, partitions = []\<rparr> =
     (Inl (Error_loading_configuration (''invalid MAX_LOG_AGE_SECONDS: '' @
          ''environment variable MAX_LOG_AGE_SECONDS is not a valid int'')),
      \<lparr>parent_exists = True, partitions = []\<rparr>, []) \<and>
   Load ParseFloat_example
     [''CLEANUP_INTERVAL_SECONDS'' \<mapsto> ''60'', ''MAX_LOG_AGE_SECONDS'' \<mapsto> ''30'',
      ''POSTGRES_PORT'' \<mapsto> ''5432''] =
   Inr \<lparr>Database = \<lparr>Host = ''localhost'', Port = 5432, User = ''user'', Password = ''password'',
                     DBName = ''auditlogs'', SSLMode = ''disable''\<rparr>,
        Timing = \<lparr>CleanupIntervalSeconds = 60, MaxLogAgeSeconds = 30\<rparr>\<rparr>"
  using Load_invalid_is_fatal [of ParseFloat_example
      "[''CLEANUP_INTERVAL_SECONDS'' \<mapsto> ''60'', ''POSTGRES_PORT'' \<mapsto> ''5432'']"
      "\<lparr>f_ping = None, f_reset = None, f_create = None\<rparr>"
      "\<lparr>parent_exists = True, partitions = []\<rparr>" 60 30 5432]
    example_env
  by (simp add: Load_def getEnvAsFloat_def getEnvAsInt_def getEnv_def Getenv_def
      ParseFloat_example_def Atoi_def dec_val_def digit_val_def is_digit_def main_startup_def)

text \<open>
  The claim as stated fails on both counts. With \<^verbatim>\<open>MAX_LOG_AGE_SECONDS\<close> unset, \<open>Load\<close>
  returns an error and the start is fatal; with the values \<^verbatim>\<open>0\<close> and \<^verbatim>\<open>-5\<close>, \<open>Load\<close> keeps
  them and no default takes their place.
\<close>

theorem Load_defaults_counterexample:
  "main_startup ParseFloat_example
     [''CLEANUP_INTERVAL_SECONDS'' \<mapsto> ''60'', ''POSTGRES_PORT'' \<mapsto> ''5432'']
     \<lparr>f_ping = None, f_reset = None, f_create = None\<rparr>
     \<lparr>parent_exists = True, partitions = []\<rparr> =
     (Inl (Error_loading_configuration (''invalid MAX_LOG_AGE_SECONDS: '' @
          ''environment variable MAX_LOG_AGE_SECONDS is not a valid int'')),
      \<lparr>parent_exists = True, partitions = []\<rparr>, []) \<and>
   Load ParseFloat_example
     [''CLEANUP_INTERVAL_SECONDS'' \<mapsto> ''0'', ''MAX_LOG_AGE_SECONDS'' \<mapsto> ''-5'',
      ''POSTGRES_PORT'' \<mapsto> ''5432''] =
   Inr \<lparr>Database = \<lparr>Host = ''localhost'', Port = 5432, User = ''user'', Password = ''password'',
                     DBName = ''auditlogs'', SSLMode = ''disable''\<rparr>,
        Timing = \<lparr>CleanupIntervalSeconds = 0, MaxLogAgeSeconds = - 5\<rparr>\<rparr>"
  by (simp add: Load_def getEnvAsFloat_def getEnvAsInt_def getEnv_def Getenv_def
      ParseFloat_example_def Atoi_def dec_val_def digit_val_def is_digit_def main_startup_def)

section \<open>The cleanup routine\<close>

lemma dropOldPartitions_messages:
  "dropOldPartitions loc fault db now maxAge = (db', out) \<Longrightarrow>
     Cleanup_already_running_skipping \<notin> set out"
  by (auto simp: dropOldPartitions_def split: sum.splits)

lemma cleanup_step_guard:
  assumes "cleanup_step loc maxAge s e = Some s'" "isRunning s = sweeping s"
    "Cleanup_already_running_skipping \<notin> set (printed s)"
  shows "isRunning s' = sweeping s' \<and> Cleanup_already_running_skipping \<notin> set (printed s')"
proof (cases e)
  case Tick_fires
  then show ?thesis using assms by auto
next
  case (Loop_receives now)
  then show ?thesis using assms by (auto split: if_splits)
next
  case (Retire_returns fault)
  obtain db' out where d: "dropOldPartitions loc fault (cl_db s) (sweep_started s) maxAge = (db', out)"
    by (cases "dropOldPartitions loc fault (cl_db s) (sweep_started s) maxAge")
  from dropOldPartitions_messages [OF d] show ?thesis
    using assms Retire_returns d by (auto split: if_splits)
qed

text \<open>
  C3 (the code against the claim). The loop calls \<^verbatim>\<open>dropOldPartitions\<close> itself and takes
  the next tick only after it has returned and \<^verbatim>\<open>isRunning\<close> is cleared. So two sweeps
  never overlap and the flag is free again after every sweep, with or without a
  failure; but in no run is a tick found with the flag set: the branch that prints
  the skip message is never taken. A tick that fires during a sweep waits in the
  channel and starts a second sweep as soon as the first has returned. This holds in
  every zone of the process.
\<close>

theorem cleanupRoutine_never_skips:
  assumes "cleanupRoutine loc maxAge s evs = Some s'"
    and "isRunning s = sweeping s"
    and "Cleanup_already_running_skipping \<notin> set (printed s)"
  shows "isRunning s' = sweeping s' \<and> Cleanup_already_running_skipping \<notin> set (printed s')"
  using assms
proof (induction evs arbitrary: s)
  case Nil
  then show ?case by simp
next
  case (Cons e evs)
  from Cons.prems(1) obtain s1 where
    st: "cleanup_step loc maxAge s e = Some s1" and r: "cleanupRoutine loc maxAge s1 evs = Some s'"
    by (auto split: option.splits)
  from cleanup_step_guard [OF st Cons.prems(2,3)]
  have "isRunning s1 = sweeping s1" "Cleanup_already_running_skipping \<notin> set (printed s1)"
    by simp_all
  with Cons.IH [OF r] show ?case by simp
qed

theorem cleanupRoutine_never_skips_witness:
  "cleanupRoutine UTC 30 (cleaner_init \<lparr>parent_exists = True, partitions = []\<rparr>)
     [Tick_fires, Loop_receives (1704111000 * Second), Tick_fires, Retire_returns None,
      Loop_receives (1704111000 * Second + 500000000)] =
   Some \<lparr>cl_db = \<lparr>parent_exists = True, partitions = []\<rparr>, isRunning = True, sweeping = True,
         sweep_started = 1704111000 * Second + 500000000, tick_pending = False,
         printed = [Running_cleanup_job, Dropped_old_partition ''audit_logs_20240101_1209'',
                    Running_cleanup_job]\<rparr> \<and>
   cleanupRoutine UTC 30 (cleaner_init \<lparr>parent_exists = True, partitions = []\<rparr>)
     [Tick_fires, Loop_receives (1704111000 * Second), Retire_returns (Some PermissionDenied)] =
   Some \<lparr>cl_db = \<lparr>parent_exists = True, partitions = []\<rparr>, isRunning = False, sweeping = False,
         sweep_started = 1704111000 * Second, tick_pending = False,
         printed = [Running_cleanup_job]\<rparr>"
proof -
  have c: "cutoff_of (1704111000 * Second) 30 = 1704110970 * Second"
    by (simp add: cutoff_of_in_range)
  have n: "partition_name UTC (1704110970 * Second) = ''audit_logs_20240101_1209''"
    by (simp add: civil_defs format_defs zone_defs)
  have d: "dropOldPartitions UTC None \<lparr>parent_exists = True, partitions = []\<rparr> (1704111000 * Second) 30 =
      (\<lparr>parent_exists = True, partitions = []\<rparr>,
       [Dropped_old_partition ''audit_logs_20240101_1209''])"
    by (simp add: dropOldPartitions_def db_Exec_def drop_stmt_def c n exec_sql_def)
  have f: "dropOldPartitions UTC (Some PermissionDenied) \<lparr>parent_exists = True, partitions = []\<rparr>
      (1704111000 * Second) 30 = (\<lparr>parent_exists = True, partitions = []\<rparr>, [])"
    by (simp add: dropOldPartitions_def db_Exec_def)
  have run: "cleanupRoutine UTC 30 (cleaner_init \<lparr>parent_exists = True, partitions = []\<rparr>)
     [Tick_fires, Loop_receives (1704111000 * Second), Tick_fires, Retire_returns None,
      Loop_receives (1704111000 * Second + 500000000)] =
   Some \<lparr>cl_db = \<lparr>parent_exists = True, partitions = []\<rparr>, isRunning = True, sweeping = True,
         sweep_started = 1704111000 * Second + 500000000, tick_pending = False,
         printed = [Running_cleanup_job, Dropped_old_partition ''audit_logs_20240101_1209'',
                    Running_cleanup_job]\<rparr>"
    by (simp add: cleaner_init_def d)
  have fail: "cleanupRoutine UTC 30 (cleaner_init \<lparr>parent_exists = True, partitions = []\<rparr>)
     [Tick_fires, Loop_receives (1704111000 * Second), Retire_returns (Some PermissionDenied)] =
   Some \<lparr>cl_db = \<lparr>parent_exists = True, partitions = []\<rparr>, isRunning = False, sweeping = False,
         sweep_started = 1704111000 * Second, tick_pending = False,
         printed = [Running_cleanup_job]\<rparr>"
    by (simp add: cleaner_init_def f)
  have i: "isRunning (cleaner_init \<lparr>parent_exists = True, partitions = []\<rparr>) =
      sweeping (cleaner_init \<lparr>parent_exists = True, partitions = []\<rparr>)"
    "Cleanup_already_running_skipping \<notin>
      set (printed (cleaner_init \<lparr>parent_exists = True, partitions = []\<rparr>))"
    by (simp_all add: cleaner_init_def)
  from cleanupRoutine_never_skips [OF run i] run fail show ?thesis by simp
qed

section \<open>Further properties\<close>

text \<open>
  X1. \<^verbatim>\<open>ensurePartition\<close> formats the truncated instant and \<^verbatim>\<open>dropOldPartitions\<close> the
  cutoff as it is. Where the offset of the zone is a whole number of minutes and the
  same at an instant and at the start of its minute, both get the name of the minute:
  the statement that creates the partition of \<open>t\<close> names it as \<open>t\<close> itself would be
  named, and the statement of a sweep names the partition that \<^verbatim>\<open>ensurePartition\<close>
  creates for the cutoff.
\<close>

theorem ensure_and_drop_agree_on_name:
  "(loc (partition_start t) = loc t \<and> loc t mod 60 = 0 \<longrightarrow>
      ensure_stmt loc t =
        CreatePartitionIfNotExists (partition_name loc t) (locabs loc (partition_start t))
          (locabs loc (partition_stop t))) \<and>
   (loc (partition_start (cutoff_of now maxAge)) = loc (cutoff_of now maxAge) \<and>
    loc (cutoff_of now maxAge) mod 60 = 0 \<longrightarrow>
      drop_stmt loc now maxAge =
        DropTableIfExistsCascade (partition_name loc (partition_start (cutoff_of now maxAge))))"
  by (simp add: ensure_stmt_def drop_stmt_def partition_name_start)

theorem ensure_and_drop_agree_on_name_witness:
  "Kolkata (partition_start (1704110970 * Second)) = Kolkata (1704110970 * Second) \<and>
   Kolkata (1704110970 * Second) mod 60 = 0 \<and>
   cutoff_of (1704111000 * Second) 30 = 1704110970 * Second \<and>
   ensure_stmt Kolkata (1704110970 * Second) =
     CreatePartitionIfNotExists ''audit_logs_20240101_1739''
       (1704130740 * Second) (1704130800 * Second) \<and>
   drop_stmt Kolkata (1704111000 * Second) 30 =
     DropTableIfExistsCascade ''audit_logs_20240101_1739''"
proof -
  have c: "cutoff_of (1704111000 * Second) 30 = 1704110970 * Second"
    by (simp add: cutoff_of_in_range)
  have n: "partition_name Kolkata (1704110970 * Second) = ''audit_logs_20240101_1739''"
    "partition_name Kolkata (1704110940 * Second) = ''audit_logs_20240101_1739''"
    by (simp_all add: civil_defs format_defs zone_defs)
  have s: "partition_start (1704110970 * Second) = 1704110940 * Second"
    "partition_stop (1704110970 * Second) = 1704111000 * Second"
    by (simp_all add: truncate_defs Second_def Minute_def)
  have l: "locabs Kolkata (1704110940 * Second) = 1704130740 * Second"
    "locabs Kolkata (1704111000 * Second) = 1704130800 * Second"
    by (simp_all add: zone_defs Second_def)
  have z: "Kolkata (partition_start (1704110970 * Second)) = Kolkata (1704110970 * Second)"
    "Kolkata (1704110970 * Second) mod 60 = 0"
    by (simp_all add: Kolkata_def)
  from ensure_and_drop_agree_on_name [of Kolkata "1704110970 * Second" "1704111000 * Second" 30]
    z c show ?thesis
    by (simp add: n s l)
qed

text \<open>
  X2. When the statement of a sweep comes back, with a failure or without, the cleanup
  routine clears \<^verbatim>\<open>isRunning\<close>: the guard is free again after every sweep.
\<close>

theorem guard_released_after_sweep:
  assumes "cleanup_step loc maxAge s (Retire_returns fault) = Some s'"
  shows "\<not> isRunning s' \<and> \<not> sweeping s'"
proof -
  obtain db' out where "dropOldPartitions loc fault (cl_db s) (sweep_started s) maxAge = (db', out)"
    by (cases "dropOldPartitions loc fault (cl_db s) (sweep_started s) maxAge")
  then show ?thesis using assms by (auto split: if_splits)
qed

theorem guard_released_after_sweep_witness:
  "cleanup_step UTC 30
     \<lparr>cl_db = \<lparr>parent_exists = True, partitions = []\<rparr>, isRunning = True, sweeping = True,
      sweep_started = 1704111000 * Second, tick_pending = True, printed = [Running_cleanup_job]\<rparr>
     (Retire_returns (Some ConnectionLost)) =
   Some \<lparr>cl_db = \<lparr>parent_exists = True, partitions = []\<rparr>, isRunning = False, sweeping = False,
         sweep_started = 1704111000 * Second, tick_pending = True, printed = [Running_cleanup_job]\<rparr>"
proof -
  have run: "cleanup_step UTC 30
     \<lparr>cl_db = \<lparr>parent_exists = True, partitions = []\<rparr>, isRunning = True, sweeping = True,
      sweep_started = 1704111000 * Second, tick_pending = True, printed = [Running_cleanup_job]\<rparr>
     (Retire_returns (Some ConnectionLost)) =
   Some \<lparr>cl_db = \<lparr>parent_exists = True, partitions = []\<rparr>, isRunning = False, sweeping = False,
         sweep_started = 1704111000 * Second, tick_pending = True, printed = [Running_cleanup_job]\<rparr>"
    by (simp add: dropOldPartitions_def db_Exec_def)
  from guard_released_after_sweep [OF run] run show ?thesis by simp
qed

end
